theory Spec2Isabelle
  imports Complex_Main "HOL-Library.Word" "HOL-Library.Monad_Syntax"
begin

section \<open>createRealFSA.py: a synthetic ABIF (.fsa) writer\<close>

text \<open>
  The script has one class, \<open>ABIFWriter\<close>, with the methods \<open>add_tag\<close> and
  \<open>create_fsa_file\<close>, and a \<open>main\<close> that builds three files and re-reads their first four
  bytes. The embedding keeps the source's names and the order of its statements.

  What the source takes from its environment is an explicit input of the model:
  \<^item> the random generator: a \<open>rand_source\<close> holds the outcome of every draw;
  \<^item> the clock: \<open>datetime.now()\<close> is a \<open>datetime\<close> argument;
  \<^item> the file at \<open>output_path\<close>: a byte list with a position, returned at the end.
  A Python exception is the result \<open>None\<close>.

  NumPy computes the peaks in IEEE double precision; the model computes them in \<open>real\<close>.
  The theorems below use of a peak only its value at the centre of the window (the
  exponential of zero) and that it lies between zero and the peak height, which holds in
  both arithmetics.
\<close>

type_synonym byte = "8 word"

subsection \<open>NumPy and Python primitives\<close>

text \<open>\<open>np.random.randint(lo, hi)\<close>: an integer in \<open>[lo, hi)\<close>, chosen by the entropy \<open>e\<close>.\<close>

definition randint :: "nat \<Rightarrow> int \<Rightarrow> int \<Rightarrow> int" where
  "randint e lo hi = lo + int e mod (hi - lo)"

text \<open>The outcome of the draws: the \<open>i\<close>-th normal sample of channel \<open>ch\<close> (a float), and
  the entropy of the \<open>randint\<close> call made for the \<open>k\<close>-th listed peak of channel \<open>ch\<close>.\<close>

record rand_source =
  normal :: "nat \<Rightarrow> nat \<Rightarrow> real"
  entropy :: "nat \<Rightarrow> nat \<Rightarrow> nat"

text \<open>\<open>.astype(np.int16)\<close> on a float, as NumPy does it on x86-64: the value is truncated
  towards zero to a 32-bit integer, of which the low 16 bits are kept (the wrap-around is
  written out); a value that does not fit 32 bits gives 0. The peaks never leave the
  16-bit range. A sample is kept as the \<open>int\<close> that the \<open>int16\<close> denotes.\<close>

definition trunc :: "real \<Rightarrow> int" where
  "trunc x = (if x < 0 then \<lceil>x\<rceil> else \<lfloor>x\<rfloor>)"

definition astype_int16 :: "real \<Rightarrow> int" where
  "astype_int16 x =
     (let t = trunc x
      in if - 2147483648 \<le> t \<and> t < 2147483648 then (t + 32768) mod 65536 - 32768 else 0)"

definition np_clip :: "int list \<Rightarrow> int \<Rightarrow> int \<Rightarrow> int list" where
  "np_clip a lo hi = map (\<lambda>v. min (max v lo) hi) a"

definition np_arange :: "int \<Rightarrow> int \<Rightarrow> int list" where
  "np_arange a b = [a..b - 1]"

text \<open>\<open>np.maximum\<close> on two one-dimensional arrays: element-wise on equal lengths; arrays of
  different lengths do not broadcast (\<open>ValueError\<close>; the case of a length-one operand, which
  NumPy stretches, is not modelled and is never reached).\<close>

definition np_maximum :: "int list \<Rightarrow> int list \<Rightarrow> int list option" where
  "np_maximum a b = (if length a = length b then Some (map2 max a b) else None)"

text \<open>Python's slice bounds: a negative index counts from the end, and both ends are
  cut to the length.\<close>

definition slice_index :: "nat \<Rightarrow> int \<Rightarrow> nat" where
  "slice_index n i = nat (if i < 0 then max 0 (int n + i) else min (int n) i)"

definition get_slice :: "'a list \<Rightarrow> int \<Rightarrow> int \<Rightarrow> 'a list" where
  "get_slice a i j =
     (let s = slice_index (length a) i; e = slice_index (length a) j
      in take (e - s) (drop s a))"

text \<open>\<open>a[i:j] = v\<close> on an array: the shapes must agree (\<open>ValueError\<close> otherwise).\<close>

definition set_slice :: "'a list \<Rightarrow> int \<Rightarrow> int \<Rightarrow> 'a list \<Rightarrow> 'a list option" where
  "set_slice a i j v =
     (let s = slice_index (length a) i; e = slice_index (length a) j
      in if length v = e - s then Some (take s a @ v @ drop (s + (e - s)) a) else None)"

text \<open>A \<open>for\<close> loop over a list whose body may raise.\<close>

fun for_each :: "('a \<Rightarrow> 's \<Rightarrow> 's option) \<Rightarrow> 'a list \<Rightarrow> 's \<Rightarrow> 's option" where
  "for_each body [] s = Some s"
| "for_each body (x # xs) s =
     (case body x s of None \<Rightarrow> None | Some s' \<Rightarrow> for_each body xs s')"

subsection \<open>The signal synthesizer (lines 38 to 66)\<close>

text \<open>The body of the loop over the peaks of a sample channel (lines 46 to 53);
  \<open>e\<close> is the entropy of its \<open>randint\<close> call.\<close>

definition str_peak :: "nat \<Rightarrow> int \<Rightarrow> nat \<Rightarrow> int list \<Rightarrow> int list option" where
  "str_peak data_points peak_pos e data =
     (let peak_start = peak_pos - 20;
          peak_end = peak_pos + 20
      in if peak_start \<ge> 0 \<and> peak_end < int data_points then
           (let x = np_arange peak_start peak_end;
                peak = 200 + randint e 0 300;
                gaussian = map (\<lambda>xi. real_of_int peak
                              * exp (- 0.5 * (real_of_int (xi - peak_pos) / 5) ^ 2)) x
            in do {
                 m \<leftarrow> np_maximum (get_slice data peak_start peak_end)
                        (map astype_int16 gaussian);
                 set_slice data peak_start peak_end m
               })
         else Some data)"

text \<open>The body of the loop over the ladder positions (lines 58 to 64).\<close>

definition ladder_peak :: "nat \<Rightarrow> int \<Rightarrow> nat \<Rightarrow> int list \<Rightarrow> int list option" where
  "ladder_peak data_points pos e data =
     (if pos < int data_points then
        (let peak_start = max 0 (pos - 15);
             peak_end = min (int data_points) (pos + 15);
             x = np_arange peak_start peak_end;
             peak = 300 + randint e 0 200;
             gaussian = map (\<lambda>xi. real_of_int peak
                           * exp (- 0.5 * (real_of_int (xi - pos) / 4) ^ 2)) x
         in do {
              m \<leftarrow> np_maximum (get_slice data peak_start peak_end)
                     (map astype_int16 gaussian);
              set_slice data peak_start peak_end m
            })
      else Some data)"

definition str_positions :: "int list" where
  "str_positions = [1000, 2000, 3000, 4000, 5000, 6000]"

definition ladder_positions :: "int list" where
  "ladder_positions = [350, 500, 750, 1000, 1390, 1500, 1600, 2000, 2500, 3000, 3400,
     3500, 4000, 4500, 4900, 5000]"

text \<open>The baseline of one channel (lines 40 and 41).\<close>

definition baseline :: "nat \<Rightarrow> nat \<Rightarrow> rand_source \<Rightarrow> int list" where
  "baseline data_points ch rnd =
     np_clip (map (\<lambda>i. astype_int16 (normal rnd ch i)) [0..<data_points]) 0 32767"

text \<open>One iteration of the loop over the channels (lines 40 to 64): the trace of
  channel \<open>ch\<close>.\<close>

definition synth_channel :: "nat \<Rightarrow> nat \<Rightarrow> rand_source \<Rightarrow> int list option" where
  "synth_channel data_points ch rnd =
     (let data = baseline data_points ch rnd
      in if ch < 4 then
           for_each (\<lambda>(k, peak_pos). str_peak data_points peak_pos (entropy rnd ch k))
             (enumerate 0 str_positions) data
         else
           for_each (\<lambda>(k, pos). ladder_peak data_points pos (entropy rnd ch k))
             (enumerate 0 ladder_positions) data)"

text \<open>The loop over the channels (lines 38 to 66): \<open>channel_data\<close>.\<close>

definition synthesize :: "nat \<Rightarrow> nat \<Rightarrow> rand_source \<Rightarrow> int list list option" where
  "synthesize data_points channels rnd =
     for_each (\<lambda>ch channel_data.
         do { data \<leftarrow> synth_channel data_points ch rnd; Some (channel_data @ [data]) })
       [0..<channels] []"

subsection \<open>Bytes: \<open>struct.pack\<close>, \<open>encode\<close>, \<open>tobytes\<close>\<close>

text \<open>\<open>struct.pack\<close> with the big-endian formats \<open>B\<close>, \<open>H\<close> and \<open>I\<close>: the bytes of the
  value, most significant first; a value that does not fit raises \<open>struct.error\<close>.\<close>

definition be16 :: "nat \<Rightarrow> byte list" where
  "be16 n = [word_of_nat (n div 2 ^ 8), word_of_nat n]"

definition be32 :: "nat \<Rightarrow> byte list" where
  "be32 n = [word_of_nat (n div 2 ^ 24), word_of_nat (n div 2 ^ 16),
             word_of_nat (n div 2 ^ 8), word_of_nat n]"

definition pack_B :: "nat \<Rightarrow> byte list option" where
  "pack_B n = (if n < 2 ^ 8 then Some [word_of_nat n] else None)"

definition pack_H :: "nat \<Rightarrow> byte list option" where
  "pack_H n = (if n < 2 ^ 16 then Some (be16 n) else None)"

definition pack_I :: "nat \<Rightarrow> byte list option" where
  "pack_I n = (if n < 2 ^ 32 then Some (be32 n) else None)"

text \<open>The format \<open>4s\<close>: four bytes, cut or zero-filled.\<close>

definition pack_4s :: "byte list \<Rightarrow> byte list" where
  "pack_4s bs = take 4 bs @ replicate (4 - length bs) 0"

definition ljust :: "byte list \<Rightarrow> nat \<Rightarrow> byte \<Rightarrow> byte list" where
  "ljust bs w fill = bs @ replicate (w - length bs) fill"

text \<open>\<open>str.encode('ascii')\<close>: \<open>UnicodeEncodeError\<close> on a character above 127. (A \<open>char\<close>
  of HOL is one byte, so the model's strings are Python's strings of code points below 256.)\<close>

definition encode_ascii :: "string \<Rightarrow> byte list option" where
  "encode_ascii s =
     (if list_all (\<lambda>c. (of_char c :: nat) < 128) s then Some (map of_char s) else None)"

text \<open>\<open>ndarray.tobytes()\<close> of an \<open>int16\<close> array: two bytes a sample in the machine's byte
  order, here little-endian (x86-64, AArch64), two's complement.\<close>

definition int16_bytes :: "int \<Rightarrow> byte list" where
  "int16_bytes v = [word_of_int v, word_of_int (v div 256)]"

definition tobytes :: "int list \<Rightarrow> byte list" where
  "tobytes a = concat (map int16_bytes a)"

subsection \<open>The output file\<close>

record fobj =
  content :: "byte list"
  fpos :: nat

definition open_wb :: fobj where
  "open_wb = \<lparr>content = [], fpos = 0\<rparr>"

definition fseek :: "fobj \<Rightarrow> nat \<Rightarrow> fobj" where
  "fseek f n = f\<lparr>fpos := n\<rparr>"

text \<open>\<open>f.write\<close> overwrites from the position on and extends the file where it has to; a
  position past the end leaves a gap of zero bytes.\<close>

definition fwrite :: "fobj \<Rightarrow> byte list \<Rightarrow> fobj" where
  "fwrite f bs =
     \<lparr>content = take (fpos f) (content f) @ replicate (fpos f - length (content f)) 0
                 @ bs @ drop (fpos f + length bs) (content f),
      fpos = fpos f + length bs\<rparr>"

subsection \<open>The class \<open>ABIFWriter\<close>\<close>

text \<open>Of the three attributes set by \<open>__init__\<close> only \<open>directory\<close> is ever read again.\<close>

record ABIFWriter =
  directory :: "byte list list"

record datetime =
  year :: nat
  month :: nat
  day :: nat
  hour :: nat
  minute :: nat
  second :: nat

text \<open>\<open>add_tag\<close> (lines 19 to 28).\<close>

definition add_tag ::
  "ABIFWriter \<Rightarrow> string \<Rightarrow> nat \<Rightarrow> nat \<Rightarrow> nat \<Rightarrow> nat \<Rightarrow> nat \<Rightarrow> ABIFWriter option" where
  "add_tag self name element_type element_size num_elements data_size data_offset = do {
     nm \<leftarrow> encode_ascii name;
     p1 \<leftarrow> pack_I element_type;
     p2 \<leftarrow> pack_I element_size;
     p3 \<leftarrow> pack_I num_elements;
     p4 \<leftarrow> pack_I data_size;
     p5 \<leftarrow> pack_I data_offset;
     let entry = pack_4s (ljust (take 4 nm) 4 0) @ p1 @ p2 @ p3 @ p4 @ p5;
     Some (self\<lparr>directory := directory self @ [entry]\<rparr>)
   }"

text \<open>The two locals that fix the size of the traces (lines 34 and 35).\<close>

definition data_points :: nat where
  "data_points = 8000"

definition channels :: nat where
  "channels = 5"

definition dyes :: "string list" where
  "dyes = [''FAM'', ''VIC'', ''NED'', ''PET'', ''LIZ'']"

text \<open>The body of the loop over the dye names (lines 133 to 137), on the file, the
  writer and \<open>current_offset\<close>.\<close>

definition dye_step ::
  "string \<Rightarrow> fobj \<times> ABIFWriter \<times> nat \<Rightarrow> (fobj \<times> ABIFWriter \<times> nat) option" where
  "dye_step dye = (\<lambda>(f, self, current_offset). do {
     dye_bytes \<leftarrow> encode_ascii dye;
     let f = fseek f current_offset;
     let f = fwrite f dye_bytes;
     self \<leftarrow> add_tag self ''DyeN'' 19 1 (length dye_bytes) (length dye_bytes) current_offset;
     Some (f, self, current_offset + length dye_bytes)
   })"

text \<open>The body of the loop over the channels (lines 141 to 145); \<open>channel_data[ch]\<close>
  raises \<open>IndexError\<close> out of range.\<close>

definition data_step ::
  "int list list \<Rightarrow> nat \<Rightarrow> fobj \<times> ABIFWriter \<times> nat \<Rightarrow> (fobj \<times> ABIFWriter \<times> nat) option" where
  "data_step channel_data ch = (\<lambda>(f, self, current_offset). do {
     data \<leftarrow> (if ch < length channel_data then Some (channel_data ! ch) else None);
     let data_bytes = tobytes data;
     let f = fseek f current_offset;
     let f = fwrite f data_bytes;
     self \<leftarrow> add_tag self ''DATA'' 4 2 (length data) (length data_bytes) current_offset;
     Some (f, self, current_offset + length data_bytes)
   })"

text \<open>The \<open>with open(output_path, 'wb')\<close> block of \<open>create_fsa_file\<close> (lines 69 to 163), on the
  traces made before it. The result is the writer and the bytes of the file.\<close>

definition write_container ::
  "ABIFWriter \<Rightarrow> datetime \<Rightarrow> string \<Rightarrow> int list list \<Rightarrow> (ABIFWriter \<times> byte list) option" where
  "write_container self now sample_name channel_data = do {
     let f = open_wb;
     let f = fwrite f (replicate 128 0);
     let current_offset = 128;
     let dir_offset = current_offset;
     let f = fwrite f (replicate 1000 0);
     let current_offset = current_offset + 1000;
     let self = self\<lparr>directory := []\<rparr>;
     sample_bytes \<leftarrow> encode_ascii sample_name;
     let f = fseek f current_offset;
     let f = fwrite f sample_bytes;
     self \<leftarrow> add_tag self ''SMPL'' 19 1 (length sample_bytes) (length sample_bytes) current_offset;
     let current_offset = current_offset + length sample_bytes;
     let machine = map of_char ''ABI_3130'';
     let f = fseek f current_offset;
     let f = fwrite f machine;
     self \<leftarrow> add_tag self ''MCHN'' 19 1 (length machine) (length machine) current_offset;
     let current_offset = current_offset + length machine;
     let model = map of_char ''3130'';
     let f = fseek f current_offset;
     let f = fwrite f model;
     self \<leftarrow> add_tag self ''MODL'' 19 1 (length model) (length model) current_offset;
     let current_offset = current_offset + length model;
     y \<leftarrow> pack_H (year now);
     mo \<leftarrow> pack_B (month now);
     d \<leftarrow> pack_B (day now);
     let run_date = y @ mo @ d;
     let f = fseek f current_offset;
     let f = fwrite f run_date;
     self \<leftarrow> add_tag self ''RUND'' 2 4 1 4 current_offset;
     let current_offset = current_offset + 4;
     h \<leftarrow> pack_B (hour now);
     mi \<leftarrow> pack_B (minute now);
     s \<leftarrow> pack_B (second now);
     let run_time = h @ mi @ s @ [0];
     let f = fseek f current_offset;
     let f = fwrite f run_time;
     self \<leftarrow> add_tag self ''RUNT'' 3 4 1 4 current_offset;
     let current_offset = current_offset + 4;
     let f = fseek f current_offset;
     scan \<leftarrow> pack_I data_points;
     let f = fwrite f scan;
     self \<leftarrow> add_tag self ''SCAN'' 4 4 1 4 current_offset;
     let current_offset = current_offset + 4;
     let f = fseek f current_offset;
     lane \<leftarrow> pack_H 1;
     let f = fwrite f lane;
     self \<leftarrow> add_tag self ''LANE'' 5 2 1 2 current_offset;
     let current_offset = current_offset + 2;
     (f, self, current_offset) \<leftarrow> for_each dye_step dyes (f, self, current_offset);
     (f, self, current_offset) \<leftarrow>
        for_each (data_step channel_data) [0..<channels] (f, self, current_offset);
     let f = fseek f dir_offset;
     let f = fold (\<lambda>entry f. fwrite f entry) (directory self) f;
     let f = fseek f 0;
     let sig = pack_4s (map of_char ''ABIF'');
     p1 \<leftarrow> pack_H 0x0101;
     p2 \<leftarrow> pack_H dir_offset;
     p3 \<leftarrow> pack_I (length (directory self));
     p4 \<leftarrow> pack_I 0;
     p5 \<leftarrow> pack_I 0;
     p6 \<leftarrow> pack_I 0;
     let header = sig @ p1 @ p2 @ p3 @ p4 @ p5 @ p6;
     let f = fwrite f header;
     let f = fwrite f (replicate (128 - length header) 0);
     Some (self, content f)
   }"

text \<open>\<open>create_fsa_file\<close> (lines 30 to 166): the traces, then the file.\<close>

definition create_fsa_file ::
  "ABIFWriter \<Rightarrow> rand_source \<Rightarrow> datetime \<Rightarrow> string \<Rightarrow> (ABIFWriter \<times> byte list) option" where
  "create_fsa_file self rnd now sample_name = do {
     channel_data \<leftarrow> synthesize data_points channels rnd;
     write_container self now sample_name channel_data
   }"

text \<open>The check that \<open>main\<close> makes on each file it has written (lines 186 to 191):
  are the first four bytes \<open>ABIF\<close>?\<close>

definition valid_header :: "byte list \<Rightarrow> bool" where
  "valid_header bs = (take 4 bs = map of_char ''ABIF'')"

section \<open>Notions used in the statements and the proofs\<close>

text \<open>A peak \<open>g\<close> applied in full on the window \<open>[s, e)\<close> of a trace: inside the window each
  sample becomes the larger of itself and the peak, outside it nothing changes.\<close>

definition overlay :: "int \<Rightarrow> int \<Rightarrow> (int \<Rightarrow> int) \<Rightarrow> int list \<Rightarrow> int list" where
  "overlay s e g data =
     map (\<lambda>i. if s \<le> int i \<and> int i < e then max (data ! i) (g (int i)) else data ! i)
       [0..<length data]"

text \<open>The 16-bit sample of a peak of height \<open>peak\<close> and width \<open>w\<close> centred at \<open>pos\<close>
  (lines 52, 53 and 63, 64).\<close>

definition gauss_i16 :: "int \<Rightarrow> int \<Rightarrow> real \<Rightarrow> int \<Rightarrow> int" where
  "gauss_i16 peak pos w x =
     astype_int16 (real_of_int peak * exp (- 0.5 * (real_of_int (x - pos) / w) ^ 2))"

text \<open>A sample is a non-negative signed 16-bit value; a trace is \<open>n\<close> such samples.\<close>

definition sample_ok :: "int \<Rightarrow> bool" where
  "sample_ok v = (0 \<le> v \<and> v \<le> 32767)"

definition trace_ok :: "nat \<Rightarrow> int list \<Rightarrow> bool" where
  "trace_ok n data = (length data = n \<and> list_all sample_ok data)"

text \<open>The largest sample in the window \<open>[p - 20, p + 20)\<close> of a trace.\<close>

definition window_max :: "int list \<Rightarrow> int \<Rightarrow> int" where
  "window_max data p = Max (set (get_slice data (p - 20) (p + 20)))"

text \<open>Draws that make a flat trace: every normal sample is the mean 50, every \<open>randint\<close>
  returns its lower bound.\<close>

definition calm_draws :: rand_source where
  "calm_draws = \<lparr>normal = (\<lambda>ch i. 50), entropy = (\<lambda>ch k. 0)\<rparr>"

text \<open>The mean of the baseline noise (line 40) and the least peak height of a sample
  channel (line 51).\<close>

definition baseline_mean :: int where
  "baseline_mean = 50"

definition min_peak_height :: int where
  "min_peak_height = 200"

text \<open>The largest sample around the peak at \<open>p\<close> in the trace of channel \<open>ch\<close>.\<close>

definition peak_window_max :: "nat \<Rightarrow> nat \<Rightarrow> rand_source \<Rightarrow> int \<Rightarrow> int option" where
  "peak_window_max n ch rnd p = map_option (\<lambda>data. window_max data p) (synth_channel n ch rnd)"

text \<open>The four name bytes of a tag, and the 24 bytes of its directory entry as \<open>add_tag\<close>
  packs them.\<close>

definition tag_name :: "string \<Rightarrow> byte list" where
  "tag_name name = pack_4s (ljust (take 4 (map of_char name)) 4 0)"

definition mk_entry :: "string \<Rightarrow> nat \<Rightarrow> nat \<Rightarrow> nat \<Rightarrow> nat \<Rightarrow> nat \<Rightarrow> byte list" where
  "mk_entry name ty es n ds off =
     tag_name name @ be32 ty @ be32 es @ be32 n @ be32 ds @ be32 off"

text \<open>A clock reading whose fields fit the formats they are packed with (every
  \<open>datetime\<close> of Python does: the year is at most 9999).\<close>

definition valid_now :: "datetime \<Rightarrow> bool" where
  "valid_now now = (year now < 65536 \<and> month now < 256 \<and> day now < 256
     \<and> hour now < 256 \<and> minute now < 256 \<and> second now < 256)"

text \<open>The \<open>with\<close> block in three parts, for the proofs: the seven metadata tags (lines 69
  to 128), then the two loops, then the directory and the header (lines 147 to 163).\<close>

definition phase1 :: "ABIFWriter \<Rightarrow> datetime \<Rightarrow> string \<Rightarrow> (fobj \<times> ABIFWriter \<times> nat) option" where
  "phase1 self now sample_name = do {
     let f = open_wb;
     let f = fwrite f (replicate 128 0);
     let current_offset = 128;
     let f = fwrite f (replicate 1000 0);
     let current_offset = current_offset + 1000;
     let self = self\<lparr>directory := []\<rparr>;
     sample_bytes \<leftarrow> encode_ascii sample_name;
     let f = fseek f current_offset;
     let f = fwrite f sample_bytes;
     self \<leftarrow> add_tag self ''SMPL'' 19 1 (length sample_bytes) (length sample_bytes) current_offset;
     let current_offset = current_offset + length sample_bytes;
     let machine = map of_char ''ABI_3130'';
     let f = fseek f current_offset;
     let f = fwrite f machine;
     self \<leftarrow> add_tag self ''MCHN'' 19 1 (length machine) (length machine) current_offset;
     let current_offset = current_offset + length machine;
     let model = map of_char ''3130'';
     let f = fseek f current_offset;
     let f = fwrite f model;
     self \<leftarrow> add_tag self ''MODL'' 19 1 (length model) (length model) current_offset;
     let current_offset = current_offset + length model;
     y \<leftarrow> pack_H (year now);
     mo \<leftarrow> pack_B (month now);
     d \<leftarrow> pack_B (day now);
     let run_date = y @ mo @ d;
     let f = fseek f current_offset;
     let f = fwrite f run_date;
     self \<leftarrow> add_tag self ''RUND'' 2 4 1 4 current_offset;
     let current_offset = current_offset + 4;
     h \<leftarrow> pack_B (hour now);
     mi \<leftarrow> pack_B (minute now);
     s \<leftarrow> pack_B (second now);
     let run_time = h @ mi @ s @ [0];
     let f = fseek f current_offset;
     let f = fwrite f run_time;
     self \<leftarrow> add_tag self ''RUNT'' 3 4 1 4 current_offset;
     let current_offset = current_offset + 4;
     let f = fseek f current_offset;
     scan \<leftarrow> pack_I data_points;
     let f = fwrite f scan;
     self \<leftarrow> add_tag self ''SCAN'' 4 4 1 4 current_offset;
     let current_offset = current_offset + 4;
     let f = fseek f current_offset;
     lane \<leftarrow> pack_H 1;
     let f = fwrite f lane;
     self \<leftarrow> add_tag self ''LANE'' 5 2 1 2 current_offset;
     let current_offset = current_offset + 2;
     Some (f, self, current_offset)
   }"

definition finish :: "fobj \<times> ABIFWriter \<times> nat \<Rightarrow> (ABIFWriter \<times> byte list) option" where
  "finish = (\<lambda>(f, self, current_offset). do {
     let dir_offset = 128;
     let f = fseek f dir_offset;
     let f = fold (\<lambda>entry f. fwrite f entry) (directory self) f;
     let f = fseek f 0;
     let sig = pack_4s (map of_char ''ABIF'');
     p1 \<leftarrow> pack_H 0x0101;
     p2 \<leftarrow> pack_H dir_offset;
     p3 \<leftarrow> pack_I (length (directory self));
     p4 \<leftarrow> pack_I 0;
     p5 \<leftarrow> pack_I 0;
     p6 \<leftarrow> pack_I 0;
     let header = sig @ p1 @ p2 @ p3 @ p4 @ p5 @ p6;
     let f = fwrite f header;
     let f = fwrite f (replicate (128 - length header) 0);
     Some (self, content f)
   })"

text \<open>One tag as the source writes it: seek, write the payload, add the directory entry,
  advance \<open>current_offset\<close> by the declared size.\<close>

definition emit ::
  "string \<Rightarrow> nat \<Rightarrow> nat \<Rightarrow> nat \<Rightarrow> nat \<Rightarrow> byte list \<Rightarrow> fobj \<times> ABIFWriter \<times> nat
     \<Rightarrow> (fobj \<times> ABIFWriter \<times> nat) option" where
  "emit name ty es n ds bs = (\<lambda>(f, self, off). do {
     self \<leftarrow> add_tag self name ty es n ds off;
     Some (fwrite (fseek f off) bs, self, off + ds)
   })"

text \<open>What the directory says of a tag (name, type code, element size, element count, data
  size), paired with the payload bytes written for it.\<close>

type_synonym tag_item = "(string \<times> nat \<times> nat \<times> nat \<times> nat) \<times> byte list"

text \<open>The directory entries of a run of tags whose payloads lie one after the other from
  the offset \<open>off\<close>.\<close>

fun layout :: "nat \<Rightarrow> tag_item list \<Rightarrow> byte list list" where
  "layout off [] = []"
| "layout off (((name, ty, es, n, ds), bs) # rest) =
     mk_entry name ty es n ds off # layout (off + length bs) rest"

text \<open>The state of the writer after the tags \<open>items\<close>: the two reserved regions followed by
  the payloads, one directory entry a tag, and \<open>current_offset\<close> at the end of the file.\<close>

definition written :: "fobj \<times> ABIFWriter \<times> nat \<Rightarrow> tag_item list \<Rightarrow> bool" where
  "written st items =
     (case st of (f, self, off) \<Rightarrow>
        content f = replicate 128 0 @ replicate 1000 0 @ concat (map snd items)
        \<and> directory self = layout 1128 items
        \<and> off = 1128 + length (concat (map snd items)))"

definition dye_item :: "string \<Rightarrow> tag_item" where
  "dye_item dye = ((''DyeN'', 19, 1, length dye, length dye), map of_char dye)"

definition data_item :: "int list \<Rightarrow> tag_item" where
  "data_item data = ((''DATA'', 4, 2, length data, 2 * length data), tobytes data)"

text \<open>The seven metadata tags in the order of the source, each with its payload.\<close>

definition meta_items :: "datetime \<Rightarrow> byte list \<Rightarrow> tag_item list" where
  "meta_items now sb =
     [((''SMPL'', 19, 1, length sb, length sb), sb),
      ((''MCHN'', 19, 1, 8, 8), map of_char ''ABI_3130''),
      ((''MODL'', 19, 1, 4, 4), map of_char ''3130''),
      ((''RUND'', 2, 4, 1, 4),
         be16 (year now) @ [word_of_nat (month now), word_of_nat (day now)]),
      ((''RUNT'', 3, 4, 1, 4),
         [word_of_nat (hour now), word_of_nat (minute now), word_of_nat (second now), 0]),
      ((''SCAN'', 4, 4, 1, 4), be32 data_points),
      ((''LANE'', 5, 2, 1, 2), be16 1)]"

text \<open>The 24 bytes that \<open>struct.pack('>4sHHIIII', ...)\<close> makes of the header fields (lines 154
  to 161), for a directory of \<open>n\<close> entries.\<close>

definition header_bytes :: "nat \<Rightarrow> byte list" where
  "header_bytes n =
     pack_4s (map of_char ''ABIF'') @ be16 0x0101 @ be16 128 @ be32 n
       @ be32 0 @ be32 0 @ be32 0"

text \<open>All the tags of a file in the order of the source, and the bytes of the file they
  make: header, padding, directory, the rest of the reserved region, payloads.\<close>

definition all_items :: "datetime \<Rightarrow> byte list \<Rightarrow> int list list \<Rightarrow> tag_item list" where
  "all_items now sb cd = meta_items now sb @ map dye_item dyes @ map data_item cd"

definition container :: "tag_item list \<Rightarrow> byte list" where
  "container items =
     header_bytes (length items) @ replicate 104 0 @ concat (layout 1128 items)
       @ replicate (1000 - 24 * length items) 0 @ concat (map snd items)"

text \<open>The inputs on which the build raises nothing: a clock reading that fits its
  formats, an ASCII sample name, and sizes that fit the 32-bit fields.\<close>

definition buildable :: "datetime \<Rightarrow> string \<Rightarrow> bool" where
  "buildable now sample_name =
     (valid_now now \<and> list_all (\<lambda>c. (of_char c :: nat) < 128) sample_name
      \<and> length sample_name + 81169 < 4294967296)"

text \<open>The traces of a build: \<open>channel_data\<close>.\<close>

definition traces :: "rand_source \<Rightarrow> int list list" where
  "traces rnd = (case synthesize data_points channels rnd of Some cd \<Rightarrow> cd | None \<Rightarrow> [])"

text \<open>Reading a file back: a big-endian unsigned integer, and the \<open>n\<close> bytes from the
  offset \<open>off\<close>.\<close>

definition be_nat :: "byte list \<Rightarrow> nat" where
  "be_nat bs = foldl (\<lambda>a b. a * 256 + unat b) 0 bs"

definition bytes_at :: "byte list \<Rightarrow> nat \<Rightarrow> nat \<Rightarrow> byte list" where
  "bytes_at bs off n = take n (drop off bs)"

text \<open>The fields of a 24-byte directory entry, in the order \<open>add_tag\<close> packs them.\<close>

definition entry_name :: "byte list \<Rightarrow> byte list" where
  "entry_name e = bytes_at e 0 4"

definition entry_type :: "byte list \<Rightarrow> nat" where
  "entry_type e = be_nat (bytes_at e 4 4)"

definition entry_esize :: "byte list \<Rightarrow> nat" where
  "entry_esize e = be_nat (bytes_at e 8 4)"

definition entry_num :: "byte list \<Rightarrow> nat" where
  "entry_num e = be_nat (bytes_at e 12 4)"

definition entry_size :: "byte list \<Rightarrow> nat" where
  "entry_size e = be_nat (bytes_at e 16 4)"

definition entry_offset :: "byte list \<Rightarrow> nat" where
  "entry_offset e = be_nat (bytes_at e 20 4)"

text \<open>The header fields where the code puts them: after the magic value and the version,
  a 2-byte directory offset at byte 6 and a 4-byte entry count at byte 8.\<close>

definition header_dir_offset :: "byte list \<Rightarrow> nat" where
  "header_dir_offset file = be_nat (bytes_at file 6 2)"

definition header_entry_count :: "byte list \<Rightarrow> nat" where
  "header_entry_count file = be_nat (bytes_at file 8 4)"

text \<open>The header fields where the specification puts them: a 4-byte directory offset at
  byte 6 and a 4-byte entry count at byte 10.\<close>

definition spec_header_dir_offset :: "byte list \<Rightarrow> nat" where
  "spec_header_dir_offset file = be_nat (bytes_at file 6 4)"

definition spec_header_entry_count :: "byte list \<Rightarrow> nat" where
  "spec_header_entry_count file = be_nat (bytes_at file 10 4)"

text \<open>A writer as \<open>__init__\<close> makes it, a clock reading, and the bytes of the file that a
  build writes.\<close>

definition new_writer :: ABIFWriter where
  "new_writer = \<lparr>directory = []\<rparr>"

definition demo_now :: datetime where
  "demo_now = \<lparr>year = 2024, month = 1, day = 15, hour = 10, minute = 30, second = 0\<rparr>"

definition built :: "ABIFWriter \<Rightarrow> rand_source \<Rightarrow> datetime \<Rightarrow> string \<Rightarrow> byte list option" where
  "built self rnd now sample_name = map_option snd (create_fsa_file self rnd now sample_name)"

text \<open>The tag names of a file in directory order: seven metadata tags, one \<open>DyeN\<close> a dye,
  one \<open>DATA\<close> a channel.\<close>

definition tag_names :: "string list" where
  "tag_names =
     [''SMPL'', ''MCHN'', ''MODL'', ''RUND'', ''RUNT'', ''SCAN'', ''LANE'']
       @ replicate 5 ''DyeN'' @ replicate 5 ''DATA''"

text \<open>A tag whose fields fit their 32-bit formats and whose declared size is the size of
  its payload.\<close>

definition item_ok :: "tag_item \<Rightarrow> bool" where
  "item_ok it =
     (case it of ((name, ty, es, n, ds), bs) \<Rightarrow>
        ty < 4294967296 \<and> es < 4294967296 \<and> n < 4294967296 \<and> ds < 4294967296
        \<and> ds = length bs)"

text \<open>What the directory declares of a tag: its type code with its element size; and
  whether its data size is its element size times its element count.\<close>

definition type_width :: "byte list \<Rightarrow> nat \<times> nat" where
  "type_width e = (entry_type e, entry_esize e)"

definition entry_consistent :: "byte list \<Rightarrow> bool" where
  "entry_consistent e = (entry_size e = entry_esize e * entry_num e)"

text \<open>A tag whose declared data size is its element size times its element count.\<close>

definition item_consistent :: "tag_item \<Rightarrow> bool" where
  "item_consistent it = (case it of ((name, ty, es, n, ds), bs) \<Rightarrow> ds = es * n)"

text \<open>Reading the directory back as a reader does: from the offset in the header, as many
  24-byte entries as the header counts; then the payload of each entry, from its offset
  and size.\<close>

definition read_directory :: "byte list \<Rightarrow> byte list list" where
  "read_directory file =
     map (\<lambda>i. bytes_at file (header_dir_offset file + 24 * i) 24)
       [0..<header_entry_count file]"

definition parse_payloads :: "byte list \<Rightarrow> byte list list" where
  "parse_payloads file =
     map (\<lambda>e. bytes_at file (entry_offset e) (entry_size e)) (read_directory file)"

text \<open>The payloads that a build writes, in the order of the source.\<close>

definition payloads :: "datetime \<Rightarrow> string \<Rightarrow> int list list \<Rightarrow> byte list list" where
  "payloads now sample_name cd = map snd (all_items now (map of_char sample_name) cd)"

text \<open>The byte range \<open>[offset, offset + size)\<close> that an entry declares; ranges that lie
  in the file from the payload heap on; ranges of which no two overlap.\<close>

definition entry_range :: "byte list \<Rightarrow> nat \<times> nat" where
  "entry_range e = (entry_offset e, entry_offset e + entry_size e)"

definition range_within :: "nat \<Rightarrow> nat \<Rightarrow> nat \<times> nat \<Rightarrow> bool" where
  "range_within lo hi r = (lo \<le> fst r \<and> fst r \<le> snd r \<and> snd r \<le> hi)"

fun no_overlap :: "(nat \<times> nat) list \<Rightarrow> bool" where
  "no_overlap [] = True"
| "no_overlap (r # rs) =
     (list_all (\<lambda>q. snd r \<le> fst q \<or> snd q \<le> fst r) rs \<and> no_overlap rs)"

text \<open>The ranges of payloads that lie one after the other from \<open>off\<close>.\<close>

fun ranges :: "nat \<Rightarrow> tag_item list \<Rightarrow> (nat \<times> nat) list" where
  "ranges off [] = []"
| "ranges off ((t, bs) # rest) = (off, off + length bs) # ranges (off + length bs) rest"

text \<open>What the directory depends on: the fields of a tag and the length of its payload.\<close>

definition item_shape :: "tag_item \<Rightarrow> (string \<times> nat \<times> nat \<times> nat \<times> nat) \<times> nat" where
  "item_shape it = (fst it, length (snd it))"

text \<open>The payload bytes that do not depend on the inputs: machine and model (12 bytes),
  and scan count, lane and dye names (21 bytes).\<close>

definition fixed_names :: "byte list" where
  "fixed_names = map of_char ''ABI_3130'' @ map of_char ''3130''"

definition fixed_tail :: "byte list" where
  "fixed_tail = be32 data_points @ be16 1 @ concat (map (map of_char) dyes)"



text \<open>The sizes that the directory declares of a tag: element size, element count and
  data size.\<close>

definition entry_sizes :: "byte list \<Rightarrow> nat \<times> nat \<times> nat" where
  "entry_sizes e = (entry_esize e, entry_num e, entry_size e)"

section \<open>The peak loops\<close>

lemma slice_index_in: "0 \<le> i \<Longrightarrow> i \<le> int n \<Longrightarrow> slice_index n i = nat i"
  by (simp add: slice_index_def)

lemma length_np_arange: "length (np_arange a b) = nat (b - a)"
  by (simp add: np_arange_def)

lemma nth_np_arange: "k < nat (b - a) \<Longrightarrow> np_arange a b ! k = a + int k"
  by (simp add: np_arange_def)

lemma slice_update:
  assumes "0 \<le> s" "s \<le> e" "e \<le> int (length data)"
  shows "do { m \<leftarrow> np_maximum (get_slice data s e) (map f (np_arange s e));
              set_slice data s e m } = Some (overlay s e f data)"
proof -
  define a b where "a = nat s" and "b = nat e"
  have ab: "a \<le> b" "b \<le> length data" "int a = s" "int b = e"
    using assms by (auto simp: a_def b_def)
  have si: "slice_index (length data) s = a" "slice_index (length data) e = b"
    using assms by (simp_all add: slice_index_in a_def b_def)
  define old where "old = take (b - a) (drop a data)"
  define g where "g = map f (np_arange s e)"
  define new where "new = map2 max old g"
  have lo: "length old = b - a" using ab by (simp add: old_def)
  have lg: "length g = b - a" using assms by (simp add: g_def length_np_arange a_def b_def)
  have ln: "length new = b - a" using lo lg by (simp add: new_def)
  have new_nth: "new ! k = max (data ! (a + k)) (f (s + int k))" if "k < b - a" for k
  proof -
    have "k < nat (e - s)" using that ab by linarith
    then have "np_arange s e ! k = s + int k" by (rule nth_np_arange)
    then have "g ! k = f (s + int k)" using that lg by (simp add: g_def)
    moreover have "old ! k = data ! (a + k)" using that ab by (simp add: old_def)
    ultimately show ?thesis using that lo lg by (simp add: new_def)
  qed
  have "take a data @ new @ drop b data = overlay s e f data"
  proof (rule nth_equalityI)
    show "length (take a data @ new @ drop b data) = length (overlay s e f data)"
      using ab ln by (simp add: overlay_def)
  next
    fix i assume "i < length (take a data @ new @ drop b data)"
    then have i: "i < length data" using ab ln by simp
    have ov: "overlay s e f data ! i =
        (if s \<le> int i \<and> int i < e then max (data ! i) (f (int i)) else data ! i)"
      using i by (simp add: overlay_def)
    consider "i < a" | "a \<le> i" "i < b" | "b \<le> i" by linarith
    then show "(take a data @ new @ drop b data) ! i = overlay s e f data ! i"
    proof cases
      case 1
      then have "(take a data @ new @ drop b data) ! i = data ! i"
        using ab by (simp add: nth_append)
      moreover have "int i < s" using 1 ab by linarith
      ultimately show ?thesis using ov by simp
    next
      case 2
      then have k: "i - a < b - a" by simp
      have "(take a data @ new @ drop b data) ! i = new ! (i - a)"
        using 2 k ab ln by (simp add: nth_append)
      also have "\<dots> = max (data ! (a + (i - a))) (f (s + int (i - a)))"
        using k by (rule new_nth)
      also have "a + (i - a) = i" using 2 by simp
      also have "s + int (i - a) = int i" using 2 ab by linarith
      finally have "(take a data @ new @ drop b data) ! i = max (data ! i) (f (int i))" .
      moreover have "s \<le> int i" "int i < e" using 2 ab by linarith+
      ultimately show ?thesis using ov by simp
    next
      case 3
      have "\<not> i < a" "\<not> i - a < b - a" "i - a - (b - a) = i - b" "b + (i - b) = i"
        using 3 ab by linarith+
      then have "(take a data @ new @ drop b data) ! i = data ! i"
        using ab ln i by (simp add: nth_append)
      moreover have "e \<le> int i" using 3 ab by linarith
      ultimately show ?thesis using ov by simp
    qed
  qed
  moreover have "a + (b - a) = b" using ab by simp
  moreover have "np_maximum (get_slice data s e) (map f (np_arange s e)) = Some new"
    using lo lg by (simp add: np_maximum_def get_slice_def si Let_def new_def old_def g_def)
  ultimately show ?thesis
    using ln by (simp add: set_slice_def si Let_def)
qed

lemma str_peak_eq:
  assumes "length data = n"
  shows "str_peak n p e data =
    Some (if 0 \<le> p - 20 \<and> p + 20 < int n
          then overlay (p - 20) (p + 20) (gauss_i16 (200 + randint e 0 300) p 5) data
          else data)"
proof (cases "0 \<le> p - 20 \<and> p + 20 < int n")
  case True
  then have "0 \<le> p - 20" "p - 20 \<le> p + 20" "p + 20 \<le> int (length data)"
    using assms by auto
  from slice_update [OF this, of "gauss_i16 (200 + randint e 0 300) p 5"]
  show ?thesis using True
    by (simp add: str_peak_def Let_def gauss_i16_def [abs_def] o_def)
next
  case False
  then show ?thesis by (auto simp add: str_peak_def Let_def)
qed

lemma ladder_peak_eq:
  assumes "length data = n" "0 \<le> pos"
  shows "ladder_peak n pos e data =
    Some (if pos < int n
          then overlay (max 0 (pos - 15)) (min (int n) (pos + 15))
                 (gauss_i16 (300 + randint e 0 200) pos 4) data
          else data)"
proof (cases "pos < int n")
  case True
  then have "0 \<le> max 0 (pos - 15)" "max 0 (pos - 15) \<le> min (int n) (pos + 15)"
     "min (int n) (pos + 15) \<le> int (length data)"
    using assms by auto
  from slice_update [OF this, of "gauss_i16 (300 + randint e 0 200) pos 4"]
  show ?thesis using True
    by (simp add: ladder_peak_def Let_def gauss_i16_def [abs_def] o_def)
next
  case False
  then show ?thesis by (auto simp add: ladder_peak_def Let_def)
qed

subsection \<open>Peak heights and the range of the samples\<close>

lemma randint_bounds: "0 < hi \<Longrightarrow> 0 \<le> randint e 0 hi \<and> randint e 0 hi < hi"
  by (simp add: randint_def)

lemma wrap16_id: "0 \<le> t \<Longrightarrow> t \<le> 32767 \<Longrightarrow> (t + 32768) mod 65536 - 32768 = (t::int)"
  by simp

lemma astype_int16_small:
  assumes "0 \<le> trunc x" "trunc x \<le> 32767"
  shows "astype_int16 x = trunc x"
proof -
  have "(trunc x + 32768) mod 65536 - 32768 = trunc x" using assms by (rule wrap16_id)
  moreover have "- 2147483648 \<le> trunc x \<and> trunc x < 2147483648" using assms by linarith
  ultimately show ?thesis by (simp add: astype_int16_def Let_def)
qed

lemma astype_int16_id: "0 \<le> x \<Longrightarrow> x \<le> 32767 \<Longrightarrow> astype_int16 (real_of_int x) = x"
  using astype_int16_small [of "real_of_int x"] by (simp add: trunc_def)

lemma astype_int16_range: "- 32768 \<le> astype_int16 x \<and> astype_int16 x \<le> 32767"
proof -
  have "0 \<le> (trunc x + 32768) mod 65536" "(trunc x + 32768) mod 65536 < 65536"
    by simp_all
  then have "- 32768 \<le> (trunc x + 32768) mod 65536 - 32768
      \<and> (trunc x + 32768) mod 65536 - 32768 \<le> 32767" by linarith
  then show ?thesis by (simp add: astype_int16_def Let_def)
qed

lemma gauss_i16_bounds:
  assumes "0 \<le> peak" "peak \<le> 32767"
  shows "0 \<le> gauss_i16 peak pos w x \<and> gauss_i16 peak pos w x \<le> peak"
proof -
  define r where "r = real_of_int peak * exp (- 0.5 * (real_of_int (x - pos) / w) ^ 2)"
  have "exp (- 0.5 * (real_of_int (x - pos) / w) ^ 2) \<le> 1"
    by simp
  then have "r \<le> real_of_int peak * 1"
    unfolding r_def using assms(1) by (intro mult_left_mono) simp_all
  then have r1: "r \<le> real_of_int peak" by simp
  have r0: "0 \<le> r" unfolding r_def using assms(1) by simp
  have t: "trunc r = \<lfloor>r\<rfloor>" using r0 by (simp add: trunc_def)
  have f0: "0 \<le> \<lfloor>r\<rfloor>" using r0 by simp
  have f1: "\<lfloor>r\<rfloor> \<le> peak" using r1 by (simp add: floor_le_iff)
  have "\<lfloor>r\<rfloor> \<le> 32767" using f1 assms(2) by linarith
  with f0 have "astype_int16 r = \<lfloor>r\<rfloor>"
    using astype_int16_small [of r] unfolding t by simp
  then show ?thesis using f0 f1 by (simp add: gauss_i16_def r_def)
qed

lemma gauss_i16_centre:
  assumes "0 \<le> peak" "peak \<le> 32767"
  shows "gauss_i16 peak pos w pos = peak"
  using assms by (simp add: gauss_i16_def astype_int16_id)

lemma length_overlay: "length (overlay s e g data) = length data"
  by (simp add: overlay_def)

lemma nth_overlay:
  "i < length data \<Longrightarrow> overlay s e g data ! i =
     (if s \<le> int i \<and> int i < e then max (data ! i) (g (int i)) else data ! i)"
  by (simp add: overlay_def)

lemma for_each_inv:
  assumes "P s" and "\<And>x s. x \<in> set xs \<Longrightarrow> P s \<Longrightarrow> \<exists>s'. body x s = Some s' \<and> P s'"
  shows "\<exists>s'. for_each body xs s = Some s' \<and> P s'"
  using assms
proof (induction xs arbitrary: s)
  case Nil
  then show ?case by simp
next
  case (Cons x xs)
  from Cons.prems obtain s1 where s1: "body x s = Some s1" "P s1" by force
  from Cons.IH [OF s1(2)] Cons.prems(2) obtain s' where "for_each body xs s1 = Some s'" "P s'"
    by force
  then show ?case using s1 by simp
qed

lemma for_each_append:
  "for_each body (xs @ ys) s =
     (case for_each body xs s of None \<Rightarrow> None | Some s' \<Rightarrow> for_each body ys s')"
  by (induction xs arbitrary: s) (auto split: option.splits)

lemma baseline_ok: "trace_ok n (baseline n ch rnd)"
  by (simp add: trace_ok_def baseline_def np_clip_def list_all_iff sample_ok_def)

lemma overlay_ok:
  assumes "trace_ok n data" "\<And>x. sample_ok (g x)"
  shows "trace_ok n (overlay s e g data)"
proof -
  have "sample_ok (overlay s e g data ! i)" if "i < length data" for i
  proof -
    have "sample_ok (data ! i)" using assms(1) that by (simp add: trace_ok_def list_all_length)
    moreover have "sample_ok (g (int i))" by (rule assms(2))
    ultimately show ?thesis using that by (simp add: nth_overlay max_def)
  qed
  then show ?thesis
    using assms(1) by (simp add: trace_ok_def list_all_length length_overlay)
qed

lemma str_height: "200 \<le> 200 + randint e 0 300 \<and> 200 + randint e 0 300 \<le> 499"
  using randint_bounds [of 300 e] by simp

lemma ladder_height: "300 \<le> 300 + randint e 0 200 \<and> 300 + randint e 0 200 \<le> 499"
  using randint_bounds [of 200 e] by simp

lemma gauss_sample_ok: "0 \<le> peak \<Longrightarrow> peak \<le> 499 \<Longrightarrow> sample_ok (gauss_i16 peak pos w x)"
  using gauss_i16_bounds [of peak pos w x] by (simp add: sample_ok_def)

lemma str_peak_ok:
  assumes "trace_ok n data"
  shows "\<exists>d. str_peak n p e data = Some d \<and> trace_ok n d"
proof -
  have "trace_ok n (overlay (p - 20) (p + 20) (gauss_i16 (200 + randint e 0 300) p 5) data)"
    using assms str_height [of e] by (intro overlay_ok gauss_sample_ok) simp_all
  then show ?thesis
    using assms str_peak_eq [of data n p e] by (simp add: trace_ok_def)
qed

lemma ladder_peak_ok:
  assumes "trace_ok n data" "0 \<le> pos"
  shows "\<exists>d. ladder_peak n pos e data = Some d \<and> trace_ok n d"
proof -
  have "trace_ok n (overlay (max 0 (pos - 15)) (min (int n) (pos + 15))
          (gauss_i16 (300 + randint e 0 200) pos 4) data)"
    using assms ladder_height [of e] by (intro overlay_ok gauss_sample_ok) simp_all
  then show ?thesis
    using assms ladder_peak_eq [of data n pos e] by (simp add: trace_ok_def)
qed

lemma ladder_positions_nonneg: "x \<in> set (enumerate k ladder_positions) \<Longrightarrow> 0 \<le> snd x"
  by (auto simp: ladder_positions_def dest!: in_set_enumerate_eq [THEN iffD1])

lemma synth_channel_ok: "\<exists>d. synth_channel n ch rnd = Some d \<and> trace_ok n d"
proof (cases "ch < 4")
  case True
  have "\<exists>d. for_each (\<lambda>(k, peak_pos). str_peak n peak_pos (entropy rnd ch k))
          (enumerate 0 str_positions) (baseline n ch rnd) = Some d \<and> trace_ok n d"
    by (rule for_each_inv [where P = "trace_ok n"]) (auto simp: baseline_ok intro: str_peak_ok)
  then show ?thesis using True by (simp add: synth_channel_def)
next
  case False
  have "\<exists>d. for_each (\<lambda>(k, pos). ladder_peak n pos (entropy rnd ch k))
          (enumerate 0 ladder_positions) (baseline n ch rnd) = Some d \<and> trace_ok n d"
  proof (rule for_each_inv [where P = "trace_ok n"])
    show "trace_ok n (baseline n ch rnd)" by (rule baseline_ok)
  next
    fix x s assume x: "x \<in> set (enumerate 0 ladder_positions)" and s: "trace_ok n s"
    from x have "0 \<le> snd x" by (rule ladder_positions_nonneg)
    with s show "\<exists>s'. (case x of (k, pos) \<Rightarrow> ladder_peak n pos (entropy rnd ch k)) s = Some s'
        \<and> trace_ok n s'"
      by (cases x) (auto intro: ladder_peak_ok)
  qed
  then show ?thesis using False by (simp add: synth_channel_def)
qed

lemma synthesize_ok:
  "\<exists>cd. synthesize n c rnd = Some cd \<and> length cd = c
      \<and> (\<forall>k<c. synth_channel n k rnd = Some (cd ! k))"
proof (induction c)
  case 0
  then show ?case by (simp add: synthesize_def)
next
  case (Suc c)
  then obtain cd where cd: "synthesize n c rnd = Some cd" "length cd = c"
    "\<forall>k<c. synth_channel n k rnd = Some (cd ! k)" by blast
  obtain d where d: "synth_channel n c rnd = Some d" using synth_channel_ok by blast
  have "synthesize n (Suc c) rnd = Some (cd @ [d])"
    using cd(1) d by (simp add: synthesize_def for_each_append)
  moreover have "\<forall>k<Suc c. synth_channel n k rnd = Some ((cd @ [d]) ! k)"
    using cd(2,3) d by (auto simp: nth_append less_Suc_eq)
  ultimately show ?case using cd(2) by auto
qed

text \<open>
  Claim C7. Whatever the random draws, the synthesizer returns one trace for each channel,
  every trace has exactly the requested number of samples, and every sample lies in
  \<open>[0, 32767]\<close>.
\<close>

theorem synthesized_traces_in_range:
  "\<exists>channel_data. synthesize n c rnd = Some channel_data \<and> length channel_data = c
     \<and> list_all (\<lambda>data. length data = n \<and> list_all (\<lambda>v. 0 \<le> v \<and> v \<le> 32767) data)
          channel_data"
proof -
  obtain cd where cd: "synthesize n c rnd = Some cd" "length cd = c"
    "\<forall>k<c. synth_channel n k rnd = Some (cd ! k)" using synthesize_ok by blast
  have "length (cd ! k) = n \<and> list_all (\<lambda>v. 0 \<le> v \<and> v \<le> 32767) (cd ! k)" if "k < c" for k
  proof -
    obtain d where "synth_channel n k rnd = Some d" "trace_ok n d"
      using synth_channel_ok by blast
    then show ?thesis using cd(3) that by (auto simp: trace_ok_def sample_ok_def [abs_def])
  qed
  then show ?thesis using cd(1,2) by (auto simp: list_all_length)
qed

lemma length_baseline: "length (baseline n ch rnd) = n"
  using baseline_ok [of n ch rnd] by (simp add: trace_ok_def)










lemma str_peak_above:
  assumes "length data = n" "\<forall>i<n. lo ! i \<le> data ! i"
  shows "\<exists>d. str_peak n p e data = Some d \<and> length d = n \<and> (\<forall>i<n. lo ! i \<le> d ! i)"
proof -
  let ?o = "overlay (p - 20) (p + 20) (gauss_i16 (200 + randint e 0 300) p 5) data"
  have "lo ! i \<le> ?o ! i" if "i < n" for i
    using that assms by (simp add: nth_overlay) (meson max.coboundedI1)
  then show ?thesis
    using assms str_peak_eq [of data n p e] by (simp add: length_overlay)
qed

lemma str_peak_below:
  assumes "length data = n" "\<forall>i<n. data ! i \<le> M" "200 + randint e 0 300 \<le> M"
  shows "\<exists>d. str_peak n p e data = Some d \<and> length d = n \<and> (\<forall>i<n. d ! i \<le> M)"
proof -
  let ?g = "gauss_i16 (200 + randint e 0 300) p 5"
  let ?o = "overlay (p - 20) (p + 20) ?g data"
  have g: "?g x \<le> M" for x
    using gauss_i16_bounds [of "200 + randint e 0 300" p 5 x] str_height [of e] assms(3)
    by linarith
  have "?o ! i \<le> M" if "i < n" for i
    using that assms(1,2) g by (simp add: nth_overlay)
  then show ?thesis
    using assms(1,2) str_peak_eq [of data n p e] by (simp add: length_overlay)
qed

lemma str_loop_above:
  assumes "length data = n"
  shows "\<exists>d. for_each (\<lambda>(k, peak_pos). str_peak n peak_pos (entropy rnd ch k)) xs data = Some d
     \<and> length d = n \<and> (\<forall>i<n. data ! i \<le> d ! i)"
proof (rule for_each_inv [where P = "\<lambda>d. length d = n \<and> (\<forall>i<n. data ! i \<le> d ! i)"])
  show "length data = n \<and> (\<forall>i<n. data ! i \<le> data ! i)" using assms by simp
next
  fix x s assume "length s = n \<and> (\<forall>i<n. data ! i \<le> s ! i)"
  then show "\<exists>s'. (case x of (k, peak_pos) \<Rightarrow> str_peak n peak_pos (entropy rnd ch k)) s = Some s'
      \<and> length s' = n \<and> (\<forall>i<n. data ! i \<le> s' ! i)"
    using str_peak_above [of s n data] by (cases x) simp
qed

lemma str_loop_ok:
  "\<exists>d. for_each (\<lambda>(k, peak_pos). str_peak n peak_pos (entropy rnd ch k)) xs
         (baseline n ch rnd) = Some d \<and> trace_ok n d"
  by (rule for_each_inv [where P = "trace_ok n"]) (auto simp: baseline_ok intro: str_peak_ok)

lemma str_channel_centre:
  assumes "ch < 4" "(k, p) \<in> set (enumerate 0 str_positions)" "0 \<le> p - 20" "p + 20 < int n"
  shows "\<exists>data. synth_channel n ch rnd = Some data \<and> length data = n
    \<and> 200 + randint (entropy rnd ch k) 0 300 \<le> data ! nat p"
proof -
  let ?body = "\<lambda>(k, peak_pos). str_peak n peak_pos (entropy rnd ch k)"
  let ?h = "200 + randint (entropy rnd ch k) 0 300"
  from assms(2) obtain xs ys where split: "enumerate 0 str_positions = xs @ (k, p) # ys"
    by (meson split_list)
  obtain d1 where d1: "for_each ?body xs (baseline n ch rnd) = Some d1" "trace_ok n d1"
    using str_loop_ok by blast
  then have l1: "length d1 = n" by (simp add: trace_ok_def)
  define d2 where "d2 = overlay (p - 20) (p + 20) (gauss_i16 ?h p 5) d1"
  have s2: "str_peak n p (entropy rnd ch k) d1 = Some d2"
    using str_peak_eq [OF l1, of p "entropy rnd ch k"] assms(3,4) by (simp add: d2_def)
  have l2: "length d2 = n" using l1 by (simp add: d2_def length_overlay)
  have pn: "nat p < n" "int (nat p) = p" using assms(3,4) by linarith+
  have "d2 ! nat p = max (d1 ! nat p) (gauss_i16 ?h p 5 p)"
    using pn l1 assms(3,4) by (simp add: d2_def nth_overlay)
  moreover have "gauss_i16 ?h p 5 p = ?h"
    using str_height [of "entropy rnd ch k"] by (intro gauss_i16_centre) simp_all
  ultimately have c2: "?h \<le> d2 ! nat p" by simp
  obtain d3 where d3: "for_each ?body ys d2 = Some d3" "length d3 = n" "\<forall>i<n. d2 ! i \<le> d3 ! i"
    using str_loop_above [OF l2] by blast
  have "for_each ?body (enumerate 0 str_positions) (baseline n ch rnd) = Some d3"
    using d1(1) s2 d3(1) by (simp add: split for_each_append)
  then have "synth_channel n ch rnd = Some d3"
    using assms(1) by (simp add: synth_channel_def)
  moreover have "?h \<le> d3 ! nat p" using c2 d3(3) pn(1) by force
  ultimately show ?thesis using d3(2) by simp
qed

lemma window_member:
  assumes "0 \<le> p - 20" "p + 20 \<le> int (length data)"
  shows "data ! nat p \<in> set (get_slice data (p - 20) (p + 20))"
proof -
  have si: "slice_index (length data) (p - 20) = nat (p - 20)"
    "slice_index (length data) (p + 20) = nat (p + 20)"
    using assms by (simp_all add: slice_index_in)
  have w: "get_slice data (p - 20) (p + 20) = take 40 (drop (nat (p - 20)) data)"
  proof -
    have "nat (p + 20) - nat (p - 20) = 40" using assms by linarith
    then show ?thesis by (simp add: get_slice_def si Let_def)
  qed
  have "take 40 (drop (nat (p - 20)) data) ! 20 = data ! (nat (p - 20) + 20)"
    using assms by simp
  moreover have "nat (p - 20) + 20 = nat p" using assms by linarith
  moreover have "20 < length (take 40 (drop (nat (p - 20)) data))" using assms by simp
  ultimately show ?thesis unfolding w by (metis nth_mem)
qed

lemma window_max_ge:
  assumes "0 \<le> p - 20" "p + 20 \<le> int (length data)"
  shows "data ! nat p \<le> window_max data p"
  unfolding window_max_def using window_member [OF assms] by (intro Max_ge) simp_all

lemma window_subset: "set (get_slice data i j) \<subseteq> set data"
  unfolding get_slice_def Let_def by (meson set_take_subset set_drop_subset subset_trans)

lemma window_max_le:
  assumes "0 \<le> p - 20" "p + 20 \<le> int (length data)" "\<forall>i<length data. data ! i \<le> M"
  shows "window_max data p \<le> M"
proof -
  have ne: "set (get_slice data (p - 20) (p + 20)) \<noteq> {}"
    using window_member [OF assms(1,2)] by auto
  have "v \<le> M" if "v \<in> set (get_slice data (p - 20) (p + 20))" for v
  proof -
    from that have "v \<in> set data" by (rule subsetD [OF window_subset])
    then show ?thesis using assms(3) by (auto simp: in_set_conv_nth)
  qed
  then show ?thesis unfolding window_max_def using ne by (simp add: Max_le_iff)
qed

text \<open>
  Claim C8, amended. In the trace of a sample channel, for a listed peak whose window
  \<open>[p - 20, p + 20)\<close> satisfies the guard, the sample at the centre \<open>p\<close> is at least the
  height drawn for that peak, so the largest sample in the window is at least the least
  peak height 200, whatever the draws. (The peak is combined with the baseline by a
  maximum, not added to it.)
\<close>

theorem peak_window_reaches_height:
  assumes "ch < 4" "(k, p) \<in> set (enumerate 0 str_positions)" "0 \<le> p - 20" "p + 20 < int n"
  shows "\<exists>data. synth_channel n ch rnd = Some data
    \<and> 200 + randint (entropy rnd ch k) 0 300 \<le> data ! nat p
    \<and> min_peak_height \<le> window_max data p"
proof -
  obtain data where d: "synth_channel n ch rnd = Some data" "length data = n"
    "200 + randint (entropy rnd ch k) 0 300 \<le> data ! nat p"
    using str_channel_centre [OF assms] by blast
  have "data ! nat p \<le> window_max data p"
    using assms(3,4) d(2) by (intro window_max_ge) simp_all
  then have "min_peak_height \<le> window_max data p"
    using d(3) str_height [of "entropy rnd ch k"] by (simp add: min_peak_height_def)
  then show ?thesis using d by blast
qed

theorem peak_window_reaches_height_witness:
  "\<exists>data. synth_channel data_points 0 calm_draws = Some data
    \<and> 200 + randint (entropy calm_draws 0 0) 0 300 \<le> data ! nat 1000
    \<and> min_peak_height \<le> window_max data 1000"
  using peak_window_reaches_height [of 0 0 1000 data_points calm_draws]
  by (simp add: str_positions_def data_points_def)

lemma str_loop_below:
  assumes "length data = n" "\<forall>i<n. data ! i \<le> M"
    "\<And>k. 200 + randint (entropy rnd ch k) 0 300 \<le> M"
  shows "\<exists>d. for_each (\<lambda>(k, peak_pos). str_peak n peak_pos (entropy rnd ch k)) xs data = Some d
     \<and> length d = n \<and> (\<forall>i<n. d ! i \<le> M)"
proof (rule for_each_inv [where P = "\<lambda>d. length d = n \<and> (\<forall>i<n. d ! i \<le> M)"])
  show "length data = n \<and> (\<forall>i<n. data ! i \<le> M)" using assms(1,2) by simp
next
  fix x s assume "length s = n \<and> (\<forall>i<n. s ! i \<le> M)"
  then show "\<exists>s'. (case x of (k, peak_pos) \<Rightarrow> str_peak n peak_pos (entropy rnd ch k)) s = Some s'
      \<and> length s' = n \<and> (\<forall>i<n. s' ! i \<le> M)"
    using str_peak_below [of s n M] assms(3) by (cases x) simp
qed

lemma calm_baseline: "i < n \<Longrightarrow> baseline n ch calm_draws ! i = 50"
proof -
  have "astype_int16 50 = 50" using astype_int16_id [of 50] by simp
  then show "i < n \<Longrightarrow> baseline n ch calm_draws ! i = 50"
    by (simp add: baseline_def np_clip_def calm_draws_def)
qed

lemma calm_channel_flat:
  assumes "ch < 4"
  shows "\<exists>data. synth_channel n ch calm_draws = Some data \<and> length data = n
    \<and> (\<forall>i<n. data ! i \<le> 200)"
proof -
  have "200 + randint (entropy calm_draws ch k) 0 300 \<le> 200" for k
    by (simp add: calm_draws_def randint_def)
  moreover have "\<forall>i<n. baseline n ch calm_draws ! i \<le> 200" by (simp add: calm_baseline)
  ultimately have "\<exists>d. for_each (\<lambda>(k, peak_pos). str_peak n peak_pos (entropy calm_draws ch k))
      (enumerate 0 str_positions) (baseline n ch calm_draws) = Some d
     \<and> length d = n \<and> (\<forall>i<n. d ! i \<le> 200)"
    by (intro str_loop_below length_baseline)
  then show ?thesis using assms by (simp add: synth_channel_def)
qed

lemma calm_window_max: "peak_window_max data_points 0 calm_draws 1000 = Some 200"
proof -
  obtain d1 where d1: "synth_channel data_points 0 calm_draws = Some d1"
    "length d1 = data_points" "\<forall>i<data_points. d1 ! i \<le> 200"
    using calm_channel_flat [of 0 data_points] by auto
  obtain d2 where d2: "synth_channel data_points 0 calm_draws = Some d2"
    "200 + randint (entropy calm_draws 0 0) 0 300 \<le> d2 ! nat 1000"
    using str_channel_centre [of 0 0 1000 data_points calm_draws]
    by (auto simp: str_positions_def data_points_def)
  have eq: "d2 = d1" using d1(1) d2(1) by simp
  have lo: "200 \<le> d1 ! nat 1000" using d2(2) eq by (simp add: randint_def)
  have b: "(0::int) \<le> 1000 - 20" "1000 + 20 \<le> int (length d1)"
    using d1(2) by (simp_all add: data_points_def)
  have "d1 ! nat 1000 \<le> window_max d1 1000" using b by (rule window_max_ge)
  moreover have "window_max d1 1000 \<le> 200" using b d1(2,3) by (intro window_max_le) simp_all
  ultimately have "window_max d1 1000 = 200" using lo by linarith
  then show ?thesis using d1(1) by (simp add: peak_window_max_def)
qed

text \<open>
  Claim C8, as stated, fails: with a flat baseline at the mean 50 and the least height
  drawn, the largest sample around the peak at 1000 of channel 0 is 200, which is above
  the mean by 150 and not by the least peak height 200.
\<close>

theorem peak_not_above_mean_by_height:
  "peak_window_max data_points 0 calm_draws 1000 = Some 200
   \<and> \<not> (min_peak_height \<le> 200 - baseline_mean)"
  using calm_window_max by (simp add: min_peak_height_def baseline_mean_def)

section \<open>The encoder\<close>

subsection \<open>One tag at a time\<close>

lemma length_be16: "length (be16 n) = 2" by (simp add: be16_def)
lemma length_be32: "length (be32 n) = 4" by (simp add: be32_def)
lemma length_tobytes: "length (tobytes a) = 2 * length a"
  by (induction a) (simp_all add: tobytes_def int16_bytes_def)

lemma pack_B_ok: "n < 256 \<Longrightarrow> pack_B n = Some [word_of_nat n]" by (simp add: pack_B_def)
lemma pack_H_ok: "n < 65536 \<Longrightarrow> pack_H n = Some (be16 n)" by (simp add: pack_H_def)
lemma pack_I_ok: "n < 4294967296 \<Longrightarrow> pack_I n = Some (be32 n)" by (simp add: pack_I_def)

lemma add_tag_ok:
  assumes "list_all (\<lambda>c. (of_char c :: nat) < 128) name"
    "ty < 4294967296" "es < 4294967296" "n < 4294967296" "ds < 4294967296" "off < 4294967296"
  shows "add_tag self name ty es n ds off
     = Some (self\<lparr>directory := directory self @ [mk_entry name ty es n ds off]\<rparr>)"
  using assms by (simp add: add_tag_def encode_ascii_def pack_I_ok mk_entry_def tag_name_def)

lemma fwrite_end:
  "fpos f = length (content f) \<Longrightarrow>
     fwrite f bs = \<lparr>content = content f @ bs, fpos = length (content f) + length bs\<rparr>"
  by (simp add: fwrite_def)

lemma fwrite_seek_end:
  "off = length (content f) \<Longrightarrow>
     fwrite (fseek f off) bs = \<lparr>content = content f @ bs, fpos = off + length bs\<rparr>"
  by (simp add: fwrite_def fseek_def)

lemma encode_ascii_lit:
  "encode_ascii ''FAM'' = Some (map of_char ''FAM'')"
  "encode_ascii ''VIC'' = Some (map of_char ''VIC'')"
  "encode_ascii ''NED'' = Some (map of_char ''NED'')"
  "encode_ascii ''PET'' = Some (map of_char ''PET'')"
  "encode_ascii ''LIZ'' = Some (map of_char ''LIZ'')"
  by (simp_all add: encode_ascii_def)

lemma dye_step_ok:
  assumes "encode_ascii dye = Some db" "off = length (content f)" "length db < 4294967296" "off < 4294967296"
  shows "dye_step dye (f, self, off) =
    Some (\<lparr>content = content f @ db, fpos = off + length db\<rparr>,
          self\<lparr>directory := directory self @ [mk_entry ''DyeN'' 19 1 (length db) (length db) off]\<rparr>,
          off + length db)"
  using assms by (simp add: dye_step_def fwrite_seek_end add_tag_ok)

lemma data_step_ok:
  assumes "ch < length cd" "off = length (content f)" "2 * length (cd ! ch) < 4294967296" "off < 4294967296"
  shows "data_step cd ch (f, self, off) =
    Some (\<lparr>content = content f @ tobytes (cd ! ch), fpos = off + 2 * length (cd ! ch)\<rparr>,
          self\<lparr>directory := directory self @ [mk_entry ''DATA'' 4 2 (length (cd ! ch)) (2 * length (cd ! ch)) off]\<rparr>,
          off + 2 * length (cd ! ch))"
  using assms by (simp add: data_step_def fwrite_seek_end add_tag_ok length_tobytes Let_def)

lemma write_container_phases:
  "write_container self now sample_name cd = do {
     (f, self, current_offset) \<leftarrow> phase1 self now sample_name;
     (f, self, current_offset) \<leftarrow> for_each dye_step dyes (f, self, current_offset);
     (f, self, current_offset) \<leftarrow>
        for_each (data_step cd) [0..<channels] (f, self, current_offset);
     finish (f, self, current_offset)
   }"
  unfolding write_container_def phase1_def finish_def Let_def
  by simp

lemma phase1_steps:
  "phase1 self now sample_name = do {
     sb \<leftarrow> encode_ascii sample_name;
     (f, self, off) \<leftarrow> emit ''SMPL'' 19 1 (length sb) (length sb) sb
        (fwrite (fwrite open_wb (replicate 128 0)) (replicate 1000 0),
         self\<lparr>directory := []\<rparr>, 1128);
     (f, self, off) \<leftarrow> emit ''MCHN'' 19 1 (length ''ABI_3130'') (length ''ABI_3130'')
        (map of_char ''ABI_3130'') (f, self, off);
     (f, self, off) \<leftarrow> emit ''MODL'' 19 1 (length ''3130'') (length ''3130'')
        (map of_char ''3130'') (f, self, off);
     y \<leftarrow> pack_H (year now);
     mo \<leftarrow> pack_B (month now);
     d \<leftarrow> pack_B (day now);
     (f, self, off) \<leftarrow> emit ''RUND'' 2 4 1 4 (y @ mo @ d) (f, self, off);
     h \<leftarrow> pack_B (hour now);
     mi \<leftarrow> pack_B (minute now);
     s \<leftarrow> pack_B (second now);
     (f, self, off) \<leftarrow> emit ''RUNT'' 3 4 1 4 (h @ mi @ s @ [0]) (f, self, off);
     scan \<leftarrow> pack_I data_points;
     (f, self, off) \<leftarrow> emit ''SCAN'' 4 4 1 4 scan (f, self, off);
     lane \<leftarrow> pack_H 1;
     emit ''LANE'' 5 2 1 2 lane (f, self, off)
   }"
  unfolding phase1_def emit_def Let_def
  by simp

lemma layout_append:
  "layout off (xs @ [((name, ty, es, n, ds), bs)]) =
     layout off xs @ [mk_entry name ty es n ds (off + length (concat (map snd xs)))]"
  by (induction off xs rule: layout.induct) (simp_all add: add.assoc)

lemma length_layout: "length (layout off xs) = length xs"
  by (induction off xs rule: layout.induct) simp_all

lemma length_mk_entry: "length (mk_entry name ty es n ds off) = 24"
  by (simp add: mk_entry_def tag_name_def pack_4s_def ljust_def length_be32)

lemma length_concat_layout: "length (concat (layout off xs)) = 24 * length xs"
  by (induction off xs rule: layout.induct) (simp_all add: length_mk_entry)

lemma emit_written:
  assumes "written (f, self, off) items"
    and "list_all (\<lambda>c. (of_char c :: nat) < 128) name"
    and "length bs = ds"
    and "ty < 4294967296" "es < 4294967296" "n < 4294967296"
    and "off + ds < 4294967296"
  shows "\<exists>f' self'. emit name ty es n ds bs (f, self, off) = Some (f', self', off + ds)
     \<and> written (f', self', off + ds) (items @ [((name, ty, es, n, ds), bs)])"
proof -
  have off: "off = length (content f)" "off = 1128 + length (concat (map snd items))"
    using assms(1) by (simp_all add: written_def)
  have tag: "add_tag self name ty es n ds off
      = Some (self\<lparr>directory := directory self @ [mk_entry name ty es n ds off]\<rparr>)"
    using assms(2,4-7) by (intro add_tag_ok) simp_all
  have wr: "fwrite (fseek f off) bs = \<lparr>content = content f @ bs, fpos = off + length bs\<rparr>"
    using off(1) by (rule fwrite_seek_end)
  have "written (\<lparr>content = content f @ bs, fpos = off + length bs\<rparr>,
      self\<lparr>directory := directory self @ [mk_entry name ty es n ds off]\<rparr>, off + ds)
      (items @ [((name, ty, es, n, ds), bs)])"
    using assms(1,3) off(2) by (simp add: written_def layout_append)
  then show ?thesis by (simp add: emit_def tag wr)
qed

lemma dye_step_emit:
  "list_all (\<lambda>c. (of_char c :: nat) < 128) dye \<Longrightarrow>
   dye_step dye st = emit ''DyeN'' 19 1 (length dye) (length dye) (map of_char dye) st"
  by (cases st) (simp add: dye_step_def emit_def encode_ascii_def Let_def)

lemma data_step_emit:
  "ch < length cd \<Longrightarrow>
   data_step cd ch st
     = emit ''DATA'' 4 2 (length (cd ! ch)) (2 * length (cd ! ch)) (tobytes (cd ! ch)) st"
  by (cases st) (simp add: data_step_def emit_def Let_def length_tobytes)

lemma dye_loop_written:
  assumes "written (f, self, off) items"
    and "list_all (list_all (\<lambda>c. (of_char c :: nat) < 128)) ds"
    and "off + length (concat ds) < 4294967296"
  shows "\<exists>f' self' off'. for_each dye_step ds (f, self, off) = Some (f', self', off')
     \<and> written (f', self', off') (items @ map dye_item ds)"
  using assms
proof (induction ds arbitrary: f self off items)
  case Nil
  then show ?case by simp
next
  case (Cons d ds)
  have "\<exists>f' self'. emit ''DyeN'' 19 1 (length d) (length d) (map of_char d) (f, self, off)
       = Some (f', self', off + length d)
     \<and> written (f', self', off + length d)
         (items @ [((''DyeN'', 19, 1, length d, length d), map of_char d)])"
    using Cons.prems by (intro emit_written) simp_all
  then obtain f1 s1 where
    1: "dye_step d (f, self, off) = Some (f1, s1, off + length d)"
       "written (f1, s1, off + length d) (items @ [dye_item d])"
    using Cons.prems(2) by (auto simp: dye_step_emit dye_item_def)
  have "\<exists>f' self' off'. for_each dye_step ds (f1, s1, off + length d) = Some (f', self', off')
     \<and> written (f', self', off') ((items @ [dye_item d]) @ map dye_item ds)"
    using 1(2) Cons.prems(2,3) by (intro Cons.IH) simp_all
  then show ?case using 1(1) by simp
qed

lemma data_loop_written:
  assumes "written (f, self, off) items"
    and "set chs \<subseteq> {..<length cd}"
    and "off + 2 * length (concat (map (\<lambda>ch. cd ! ch) chs)) < 4294967296"
  shows "\<exists>f' self' off'. for_each (data_step cd) chs (f, self, off) = Some (f', self', off')
     \<and> written (f', self', off') (items @ map (\<lambda>ch. data_item (cd ! ch)) chs)"
  using assms
proof (induction chs arbitrary: f self off items)
  case Nil
  then show ?case by simp
next
  case (Cons ch chs)
  let ?d = "cd ! ch"
  have "\<exists>f' self'. emit ''DATA'' 4 2 (length ?d) (2 * length ?d) (tobytes ?d) (f, self, off)
       = Some (f', self', off + 2 * length ?d)
     \<and> written (f', self', off + 2 * length ?d)
         (items @ [((''DATA'', 4, 2, length ?d, 2 * length ?d), tobytes ?d)])"
    using Cons.prems by (intro emit_written) (simp_all add: length_tobytes)
  then obtain f1 s1 where
    1: "data_step cd ch (f, self, off) = Some (f1, s1, off + 2 * length ?d)"
       "written (f1, s1, off + 2 * length ?d) (items @ [data_item ?d])"
    using Cons.prems(2) by (auto simp: data_step_emit data_item_def)
  have "\<exists>f' self' off'. for_each (data_step cd) chs (f1, s1, off + 2 * length ?d)
       = Some (f', self', off')
     \<and> written (f', self', off') ((items @ [data_item ?d]) @ map (\<lambda>ch. data_item (cd ! ch)) chs)"
    using 1(2) Cons.prems(2,3) by (intro Cons.IH) simp_all
  then show ?case using 1(1) by simp
qed

lemma phase1_written:
  assumes sb: "encode_ascii sample_name = Some sb"
    and now: "valid_now now"
    and len: "length sb + 1154 < 4294967296"
  shows "\<exists>f s. phase1 self now sample_name = Some (f, s, 1154 + length sb)
     \<and> written (f, s, 1154 + length sb) (meta_items now sb)"
proof -
  define f0 where "f0 = fwrite (fwrite open_wb (replicate 128 0)) (replicate 1000 0)"
  define s0 where "s0 = self\<lparr>directory := []\<rparr>"
  have py: "pack_H (year now) = Some (be16 (year now))"
    and pm: "pack_B (month now) = Some [word_of_nat (month now)]"
    and pd: "pack_B (day now) = Some [word_of_nat (day now)]"
    and ph: "pack_B (hour now) = Some [word_of_nat (hour now)]"
    and pi: "pack_B (minute now) = Some [word_of_nat (minute now)]"
    and ps: "pack_B (second now) = Some [word_of_nat (second now)]"
    and pn: "pack_I data_points = Some (be32 data_points)"
    and pl: "pack_H 1 = Some (be16 1)"
    using now by (simp_all add: valid_now_def pack_H_ok pack_B_ok pack_I_ok data_points_def)
  have w0: "written (f0, s0, 1128) []"
    by (simp add: written_def f0_def s0_def fwrite_def open_wb_def)
  have "\<exists>f' self'. emit ''SMPL'' 19 1 (length sb) (length sb) (sb) (f0, s0, 1128)
        = Some (f', self', 1128 + (length sb))
      \<and> written (f', self', 1128 + (length sb)) ([] @ [((''SMPL'', 19, 1, length sb, length sb), sb)])"
    using w0 len by (intro emit_written) (simp_all add: length_be16 length_be32)
  then obtain f1 s1 where
    e1: "emit ''SMPL'' 19 1 (length sb) (length sb) (sb) (f0, s0, 1128) = Some (f1, s1, 1128 + length sb)"
    and w1: "written (f1, s1, 1128 + length sb) [((''SMPL'', 19, 1, length sb, length sb), sb)]"
    by (auto simp: add.commute)
  have "\<exists>f' self'. emit ''MCHN'' 19 1 (length ''ABI_3130'') (length ''ABI_3130'') (map of_char ''ABI_3130'') (f1, s1, 1128 + length sb)
        = Some (f', self', 1128 + length sb + (length ''ABI_3130''))
      \<and> written (f', self', 1128 + length sb + (length ''ABI_3130'')) ([((''SMPL'', 19, 1, length sb, length sb), sb)] @ [((''MCHN'', 19, 1, length ''ABI_3130'', length ''ABI_3130''), map of_char ''ABI_3130'')])"
    using w1 len by (intro emit_written) (simp_all add: length_be16 length_be32)
  then obtain f2 s2 where
    e2: "emit ''MCHN'' 19 1 (length ''ABI_3130'') (length ''ABI_3130'') (map of_char ''ABI_3130'') (f1, s1, 1128 + length sb) = Some (f2, s2, 1136 + length sb)"
    and w2: "written (f2, s2, 1136 + length sb) [((''SMPL'', 19, 1, length sb, length sb), sb), ((''MCHN'', 19, 1, length ''ABI_3130'', length ''ABI_3130''), map of_char ''ABI_3130'')]"
    by (auto simp: add.commute)
  have "\<exists>f' self'. emit ''MODL'' 19 1 (length ''3130'') (length ''3130'') (map of_char ''3130'') (f2, s2, 1136 + length sb)
        = Some (f', self', 1136 + length sb + (length ''3130''))
      \<and> written (f', self', 1136 + length sb + (length ''3130'')) ([((''SMPL'', 19, 1, length sb, length sb), sb), ((''MCHN'', 19, 1, length ''ABI_3130'', length ''ABI_3130''), map of_char ''ABI_3130'')] @ [((''MODL'', 19, 1, length ''3130'', length ''3130''), map of_char ''3130'')])"
    using w2 len by (intro emit_written) (simp_all add: length_be16 length_be32)
  then obtain f3 s3 where
    e3: "emit ''MODL'' 19 1 (length ''3130'') (length ''3130'') (map of_char ''3130'') (f2, s2, 1136 + length sb) = Some (f3, s3, 1140 + length sb)"
    and w3: "written (f3, s3, 1140 + length sb) [((''SMPL'', 19, 1, length sb, length sb), sb), ((''MCHN'', 19, 1, length ''ABI_3130'', length ''ABI_3130''), map of_char ''ABI_3130''), ((''MODL'', 19, 1, length ''3130'', length ''3130''), map of_char ''3130'')]"
    by (auto simp: add.commute)
  have "\<exists>f' self'. emit ''RUND'' 2 4 (1) (4) (be16 (year now) @ [word_of_nat (month now)] @ [word_of_nat (day now)]) (f3, s3, 1140 + length sb)
        = Some (f', self', 1140 + length sb + (4))
      \<and> written (f', self', 1140 + length sb + (4)) ([((''SMPL'', 19, 1, length sb, length sb), sb), ((''MCHN'', 19, 1, length ''ABI_3130'', length ''ABI_3130''), map of_char ''ABI_3130''), ((''MODL'', 19, 1, length ''3130'', length ''3130''), map of_char ''3130'')] @ [((''RUND'', 2, 4, 1, 4), be16 (year now) @ [word_of_nat (month now)] @ [word_of_nat (day now)])])"
    using w3 len by (intro emit_written) (simp_all add: length_be16 length_be32)
  then obtain f4 s4 where
    e4: "emit ''RUND'' 2 4 (1) (4) (be16 (year now) @ [word_of_nat (month now)] @ [word_of_nat (day now)]) (f3, s3, 1140 + length sb) = Some (f4, s4, 1144 + length sb)"
    and w4: "written (f4, s4, 1144 + length sb) [((''SMPL'', 19, 1, length sb, length sb), sb), ((''MCHN'', 19, 1, length ''ABI_3130'', length ''ABI_3130''), map of_char ''ABI_3130''), ((''MODL'', 19, 1, length ''3130'', length ''3130''), map of_char ''3130''), ((''RUND'', 2, 4, 1, 4), be16 (year now) @ [word_of_nat (month now)] @ [word_of_nat (day now)])]"
    by (auto simp: add.commute)
  have "\<exists>f' self'. emit ''RUNT'' 3 4 (1) (4) ([word_of_nat (hour now)] @ [word_of_nat (minute now)] @ [word_of_nat (second now)] @ [0]) (f4, s4, 1144 + length sb)
        = Some (f', self', 1144 + length sb + (4))
      \<and> written (f', self', 1144 + length sb + (4)) ([((''SMPL'', 19, 1, length sb, length sb), sb), ((''MCHN'', 19, 1, length ''ABI_3130'', length ''ABI_3130''), map of_char ''ABI_3130''), ((''MODL'', 19, 1, length ''3130'', length ''3130''), map of_char ''3130''), ((''RUND'', 2, 4, 1, 4), be16 (year now) @ [word_of_nat (month now)] @ [word_of_nat (day now)])] @ [((''RUNT'', 3, 4, 1, 4), [word_of_nat (hour now)] @ [word_of_nat (minute now)] @ [word_of_nat (second now)] @ [0])])"
    using w4 len by (intro emit_written) (simp_all add: length_be16 length_be32)
  then obtain f5 s5 where
    e5: "emit ''RUNT'' 3 4 (1) (4) ([word_of_nat (hour now)] @ [word_of_nat (minute now)] @ [word_of_nat (second now)] @ [0]) (f4, s4, 1144 + length sb) = Some (f5, s5, 1148 + length sb)"
    and w5: "written (f5, s5, 1148 + length sb) [((''SMPL'', 19, 1, length sb, length sb), sb), ((''MCHN'', 19, 1, length ''ABI_3130'', length ''ABI_3130''), map of_char ''ABI_3130''), ((''MODL'', 19, 1, length ''3130'', length ''3130''), map of_char ''3130''), ((''RUND'', 2, 4, 1, 4), be16 (year now) @ [word_of_nat (month now)] @ [word_of_nat (day now)]), ((''RUNT'', 3, 4, 1, 4), [word_of_nat (hour now)] @ [word_of_nat (minute now)] @ [word_of_nat (second now)] @ [0])]"
    by (auto simp: add.commute)
  have "\<exists>f' self'. emit ''SCAN'' 4 4 (1) (4) (be32 data_points) (f5, s5, 1148 + length sb)
        = Some (f', self', 1148 + length sb + (4))
      \<and> written (f', self', 1148 + length sb + (4)) ([((''SMPL'', 19, 1, length sb, length sb), sb), ((''MCHN'', 19, 1, length ''ABI_3130'', length ''ABI_3130''), map of_char ''ABI_3130''), ((''MODL'', 19, 1, length ''3130'', length ''3130''), map of_char ''3130''), ((''RUND'', 2, 4, 1, 4), be16 (year now) @ [word_of_nat (month now)] @ [word_of_nat (day now)]), ((''RUNT'', 3, 4, 1, 4), [word_of_nat (hour now)] @ [word_of_nat (minute now)] @ [word_of_nat (second now)] @ [0])] @ [((''SCAN'', 4, 4, 1, 4), be32 data_points)])"
    using w5 len by (intro emit_written) (simp_all add: length_be16 length_be32)
  then obtain f6 s6 where
    e6: "emit ''SCAN'' 4 4 (1) (4) (be32 data_points) (f5, s5, 1148 + length sb) = Some (f6, s6, 1152 + length sb)"
    and w6: "written (f6, s6, 1152 + length sb) [((''SMPL'', 19, 1, length sb, length sb), sb), ((''MCHN'', 19, 1, length ''ABI_3130'', length ''ABI_3130''), map of_char ''ABI_3130''), ((''MODL'', 19, 1, length ''3130'', length ''3130''), map of_char ''3130''), ((''RUND'', 2, 4, 1, 4), be16 (year now) @ [word_of_nat (month now)] @ [word_of_nat (day now)]), ((''RUNT'', 3, 4, 1, 4), [word_of_nat (hour now)] @ [word_of_nat (minute now)] @ [word_of_nat (second now)] @ [0]), ((''SCAN'', 4, 4, 1, 4), be32 data_points)]"
    by (auto simp: add.commute)
  have "\<exists>f' self'. emit ''LANE'' 5 2 (1) (2) (be16 1) (f6, s6, 1152 + length sb)
        = Some (f', self', 1152 + length sb + (2))
      \<and> written (f', self', 1152 + length sb + (2)) ([((''SMPL'', 19, 1, length sb, length sb), sb), ((''MCHN'', 19, 1, length ''ABI_3130'', length ''ABI_3130''), map of_char ''ABI_3130''), ((''MODL'', 19, 1, length ''3130'', length ''3130''), map of_char ''3130''), ((''RUND'', 2, 4, 1, 4), be16 (year now) @ [word_of_nat (month now)] @ [word_of_nat (day now)]), ((''RUNT'', 3, 4, 1, 4), [word_of_nat (hour now)] @ [word_of_nat (minute now)] @ [word_of_nat (second now)] @ [0]), ((''SCAN'', 4, 4, 1, 4), be32 data_points)] @ [((''LANE'', 5, 2, 1, 2), be16 1)])"
    using w6 len by (intro emit_written) (simp_all add: length_be16 length_be32)
  then obtain f7 s7 where
    e7: "emit ''LANE'' 5 2 (1) (2) (be16 1) (f6, s6, 1152 + length sb) = Some (f7, s7, 1154 + length sb)"
    and w7: "written (f7, s7, 1154 + length sb) [((''SMPL'', 19, 1, length sb, length sb), sb), ((''MCHN'', 19, 1, length ''ABI_3130'', length ''ABI_3130''), map of_char ''ABI_3130''), ((''MODL'', 19, 1, length ''3130'', length ''3130''), map of_char ''3130''), ((''RUND'', 2, 4, 1, 4), be16 (year now) @ [word_of_nat (month now)] @ [word_of_nat (day now)]), ((''RUNT'', 3, 4, 1, 4), [word_of_nat (hour now)] @ [word_of_nat (minute now)] @ [word_of_nat (second now)] @ [0]), ((''SCAN'', 4, 4, 1, 4), be32 data_points), ((''LANE'', 5, 2, 1, 2), be16 1)]"
    by (auto simp: add.commute)
  have "phase1 self now sample_name = Some (f7, s7, 1154 + length sb)"
    unfolding phase1_steps sb py pm pd ph pi ps pn pl bind.bind_lunit prod.case
      f0_def [symmetric] s0_def [symmetric] e1 e2 e3 e4 e5 e6 e7 ..
  moreover have l8: "length ''ABI_3130'' = 8" and l4: "length ''3130'' = 4"
    by simp_all
  have "written (f7, s7, 1154 + length sb) (meta_items now sb)"
    using w7 unfolding meta_items_def l8 l4 by simp
  ultimately show ?thesis by blast
qed

subsection \<open>The directory and the header\<close>

lemma length_header_bytes: "length (header_bytes n) = 24"
  by (simp add: header_bytes_def pack_4s_def length_be16 length_be32)

lemma fwrite_inside:
  "fpos f + length bs \<le> length (content f) \<Longrightarrow>
   fwrite f bs = \<lparr>content = take (fpos f) (content f) @ bs @ drop (fpos f + length bs) (content f),
                  fpos = fpos f + length bs\<rparr>"
  by (simp add: fwrite_def)

lemma fold_fwrite:
  "fpos f + length (concat es) \<le> length (content f) \<Longrightarrow>
   fold (\<lambda>entry f. fwrite f entry) es f =
     \<lparr>content = take (fpos f) (content f) @ concat es
                  @ drop (fpos f + length (concat es)) (content f),
      fpos = fpos f + length (concat es)\<rparr>"
proof (induction es arbitrary: f)
  case Nil
  then show ?case by simp
next
  case (Cons e es)
  let ?p = "fpos f" and ?c = "content f"
  let ?f1 = "\<lparr>content = take ?p ?c @ e @ drop (?p + length e) ?c, fpos = ?p + length e\<rparr>"
  have le: "?p + length e + length (concat es) \<le> length ?c" using Cons.prems by simp
  have 1: "fwrite f e = ?f1" using le by (intro fwrite_inside) simp
  have l1: "length (content ?f1) = length ?c" using le by simp
  have t: "take (?p + length e) (content ?f1) = take ?p ?c @ e"
    using le by simp
  have d: "drop (?p + length e + length (concat es)) (content ?f1)
      = drop (?p + length e + length (concat es)) ?c"
    using le by (simp add: add.commute add.left_commute)
  have "fold (\<lambda>entry f. fwrite f entry) es ?f1 =
     \<lparr>content = take (fpos ?f1) (content ?f1) @ concat es
                  @ drop (fpos ?f1 + length (concat es)) (content ?f1),
      fpos = fpos ?f1 + length (concat es)\<rparr>"
    using le l1 by (intro Cons.IH) simp
  also have "\<dots> = \<lparr>content = (take ?p ?c @ e) @ concat es
                  @ drop (?p + length e + length (concat es)) ?c,
      fpos = ?p + length e + length (concat es)\<rparr>"
    using t d by simp
  finally show ?case using 1 by (simp add: add.assoc)
qed

lemma finish_ok:
  assumes w: "written (f, self, off) items" and n: "24 * length items \<le> 1000"
  shows "finish (f, self, off) = Some (self, container items)"
proof -
  define P where "P = concat (map snd items)"
  define D where "D = concat (layout 1128 items)"
  define m where "m = 24 * length items"
  have c: "content f = replicate 128 0 @ replicate 1000 0 @ P"
    and dir: "directory self = layout 1128 items"
    using w by (simp_all add: written_def P_def)
  have lD: "length D = m" by (simp add: D_def m_def length_concat_layout)
  have m: "m \<le> 1000" using n by (simp add: m_def)
  have ldir: "length (directory self) = length items" by (simp add: dir length_layout)
  have pk: "pack_H 257 = Some (be16 257)" "pack_H 128 = Some (be16 128)"
    "pack_I (length items) = Some (be32 (length items))" "pack_I 0 = Some (be32 0)"
    using n by (simp_all add: pack_H_ok pack_I_ok)
  define f1 where "f1 = fseek f 128"
  have f1: "fpos f1 = 128" "content f1 = replicate 128 0 @ replicate 1000 0 @ P"
    by (simp_all add: f1_def fseek_def c)
  define f2 where "f2 = fold (\<lambda>entry f. fwrite f entry) (directory self) f1"
  have "f2 = \<lparr>content = take (fpos f1) (content f1) @ D
                  @ drop (fpos f1 + length D) (content f1),
      fpos = fpos f1 + length D\<rparr>"
    unfolding f2_def dir D_def using f1 m lD [unfolded D_def] by (intro fold_fwrite) simp
  moreover have "take (fpos f1) (content f1) = replicate 128 0" by (simp add: f1)
  moreover have "drop (fpos f1 + length D) (content f1) = replicate (1000 - m) 0 @ P"
    using m by (simp add: f1 lD)
  ultimately have c2: "content f2 = replicate 128 0 @ D @ replicate (1000 - m) 0 @ P"
    by simp
  define h where "h = header_bytes (length items)"
  have lh: "length h = 24" by (simp add: h_def length_header_bytes)
  define f3 where "f3 = fwrite (fseek f2 0) h"
  have "fwrite (fseek f2 0) h
      = \<lparr>content = take (fpos (fseek f2 0)) (content (fseek f2 0)) @ h
            @ drop (fpos (fseek f2 0) + length h) (content (fseek f2 0)),
         fpos = fpos (fseek f2 0) + length h\<rparr>"
    by (intro fwrite_inside) (simp add: fseek_def c2 lh)
  moreover have "drop 24 (content f2) = replicate 104 0 @ D @ replicate (1000 - m) 0 @ P"
    by (simp add: c2)
  ultimately have f3: "fpos f3 = 24"
    "content f3 = h @ replicate 104 0 @ D @ replicate (1000 - m) 0 @ P"
    by (simp_all add: f3_def fseek_def lh)
  define f4 where "f4 = fwrite f3 (replicate 104 0)"
  have "fwrite f3 (replicate 104 0)
      = \<lparr>content = take (fpos f3) (content f3) @ replicate 104 0
            @ drop (fpos f3 + length (replicate 104 (0::byte))) (content f3),
         fpos = fpos f3 + length (replicate 104 (0::byte))\<rparr>"
    by (intro fwrite_inside) (simp add: f3 lh)
  moreover have "take 24 (content f3) = h" by (simp add: f3 lh)
  moreover have "drop 128 (content f3) = D @ replicate (1000 - m) 0 @ P"
    by (simp add: f3 lh)
  ultimately have c4: "content f4 = h @ replicate 104 0 @ D @ replicate (1000 - m) 0 @ P"
    by (simp add: f4_def f3)
  have "finish (f, self, off) = Some (self, content f4)"
    by (simp add: finish_def Let_def ldir pk f4_def f3_def f2_def f1_def h_def header_bytes_def
        pack_4s_def length_be16 length_be32)
  then show ?thesis
    by (simp add: c4 container_def h_def D_def P_def m_def)
qed

lemma payload_meta: "length (concat (map snd (meta_items now sb))) = length sb + 26"
  by (simp add: meta_items_def length_be16 length_be32)

lemma payload_dyes: "length (concat (map (snd \<circ> dye_item) dyes)) = 15"
  by (simp add: dyes_def dye_item_def)

lemma payload_data:
  "length (concat (map (snd \<circ> data_item) cd)) = 2 * length (concat cd)"
  by (induction cd) (simp_all add: data_item_def length_tobytes)

lemma length_concat_same:
  "(\<And>d. d \<in> set xs \<Longrightarrow> length d = n) \<Longrightarrow> length (concat xs) = n * length xs"
  by (induction xs) simp_all

lemma length_all_items: "length (all_items now sb cd) = 12 + length cd"
  by (simp add: all_items_def meta_items_def dyes_def)

lemma write_container_ok:
  assumes sb: "encode_ascii sample_name = Some sb"
    and now: "valid_now now"
    and cd: "length cd = channels"
    and len: "length sb + 1169 + 2 * length (concat cd) < 4294967296"
  shows "\<exists>w. write_container self now sample_name cd
        = Some (w, container (all_items now sb cd))
     \<and> directory w = layout 1128 (all_items now sb cd)"
proof -
  obtain f1 s1 where p1: "phase1 self now sample_name = Some (f1, s1, 1154 + length sb)"
    and w1: "written (f1, s1, 1154 + length sb) (meta_items now sb)"
    using phase1_written [OF sb now, of self] len by auto
  have "\<exists>f' self' off'. for_each dye_step dyes (f1, s1, 1154 + length sb)
       = Some (f', self', off')
     \<and> written (f', self', off') (meta_items now sb @ map dye_item dyes)"
    using w1 len by (intro dye_loop_written) (simp_all add: dyes_def)
  then obtain f2 s2 off2 where
    p2: "for_each dye_step dyes (f1, s1, 1154 + length sb) = Some (f2, s2, off2)"
    and w2: "written (f2, s2, off2) (meta_items now sb @ map dye_item dyes)"
    by blast
  have off2: "off2 = 1169 + length sb"
    using w2 by (simp add: written_def payload_meta payload_dyes)
  have nth: "map (\<lambda>ch. cd ! ch) [0..<channels] = cd"
    using cd map_nth [of cd] by simp
  have eq: "map (\<lambda>ch. data_item (cd ! ch)) [0..<channels] = map data_item cd"
  proof -
    have "map (\<lambda>ch. data_item (cd ! ch)) [0..<channels]
        = map data_item (map (\<lambda>ch. cd ! ch) [0..<channels])"
      by (simp add: o_def)
    then show ?thesis unfolding nth .
  qed
  have "\<exists>f' self' off'. for_each (data_step cd) [0..<channels] (f2, s2, off2)
       = Some (f', self', off')
     \<and> written (f', self', off')
          ((meta_items now sb @ map dye_item dyes)
             @ map (\<lambda>ch. data_item (cd ! ch)) [0..<channels])"
    using w2 len cd by (intro data_loop_written) (auto simp: nth off2)
  then have "\<exists>f' self' off'. for_each (data_step cd) [0..<channels] (f2, s2, off2)
       = Some (f', self', off')
     \<and> written (f', self', off') (all_items now sb cd)"
    unfolding eq all_items_def by simp
  then obtain f3 s3 off3 where
    p3: "for_each (data_step cd) [0..<channels] (f2, s2, off2) = Some (f3, s3, off3)"
    and w3: "written (f3, s3, off3) (all_items now sb cd)"
    by blast
  have "24 * length (all_items now sb cd) \<le> 1000"
    using cd by (simp add: length_all_items channels_def)
  with w3 have p4: "finish (f3, s3, off3) = Some (s3, container (all_items now sb cd))"
    by (rule finish_ok)
  have "write_container self now sample_name cd = Some (s3, container (all_items now sb cd))"
    unfolding write_container_phases p1 bind.bind_lunit prod.case p2 p3 p4 ..
  moreover have "directory s3 = layout 1128 (all_items now sb cd)"
    using w3 by (simp add: written_def)
  ultimately show ?thesis by blast
qed

lemma synthesize_traces:
  "synthesize data_points channels rnd = Some (traces rnd)
   \<and> length (traces rnd) = channels
   \<and> (\<forall>k<channels. synth_channel data_points k rnd = Some (traces rnd ! k)
         \<and> trace_ok data_points (traces rnd ! k))"
proof -
  obtain cd where cd: "synthesize data_points channels rnd = Some cd" "length cd = channels"
    "\<forall>k<channels. synth_channel data_points k rnd = Some (cd ! k)"
    using synthesize_ok by blast
  have "trace_ok data_points (cd ! k)" if "k < channels" for k
    using synth_channel_ok [of data_points k rnd] cd(3) that by auto
  then show ?thesis using cd by (simp add: traces_def)
qed

lemma length_concat_traces: "length (concat (traces rnd)) = 40000"
proof -
  have "length d = data_points" if "d \<in> set (traces rnd)" for d
  proof -
    from that obtain k where "k < length (traces rnd)" "d = traces rnd ! k"
      by (auto simp: in_set_conv_nth)
    then show ?thesis using synthesize_traces [of rnd] by (simp add: trace_ok_def)
  qed
  then have "length (concat (traces rnd)) = data_points * length (traces rnd)"
    by (rule length_concat_same)
  then show ?thesis
    using synthesize_traces [of rnd] by (simp add: channels_def data_points_def)
qed

lemma create_fsa_file_ok:
  assumes "buildable now sample_name"
  shows "\<exists>w. create_fsa_file self rnd now sample_name
        = Some (w, container (all_items now (map of_char sample_name) (traces rnd)))
     \<and> directory w = layout 1128 (all_items now (map of_char sample_name) (traces rnd))"
proof -
  have sb: "encode_ascii sample_name = Some (map of_char sample_name)"
    and now: "valid_now now"
    and len: "length (map of_char sample_name :: byte list) + 1169
        + 2 * length (concat (traces rnd)) < 4294967296"
    using assms by (simp_all add: buildable_def encode_ascii_def length_concat_traces)
  have syn: "synthesize data_points channels rnd = Some (traces rnd)"
    and cd: "length (traces rnd) = channels"
    using synthesize_traces [of rnd] by simp_all
  show ?thesis
    using write_container_ok [OF sb now cd len, of self]
    by (simp add: create_fsa_file_def syn)
qed

subsection \<open>Reading the file back\<close>

lemma unat_byte: "unat (word_of_nat k :: byte) = k mod 256"
  by (simp add: unat_of_nat)

lemma be_nat_be16: "n < 65536 \<Longrightarrow> be_nat (be16 n) = n"
  by (simp add: be_nat_def be16_def unat_byte)

lemma be_nat_be32:
  assumes "n < 4294967296"
  shows "be_nat (be32 n) = n"
proof -
  define q1 q2 q3 where "q1 = n div 256" and "q2 = q1 div 256" and "q3 = q2 div 256"
  define r0 r1 r2 where "r0 = n mod 256" and "r1 = q1 mod 256" and "r2 = q2 mod 256"
  have e2: "n div 65536 = q2"
    unfolding q2_def q1_def by (simp add: div_mult2_eq [symmetric])
  have e3: "n div 16777216 = q3"
    unfolding q3_def q2_def q1_def by (simp add: div_mult2_eq [symmetric])
  have "q3 < 256" using assms unfolding e3 [symmetric] by simp
  then have m3: "q3 mod 256 = q3" by simp
  have d0: "n = q1 * 256 + r0" unfolding q1_def r0_def by simp
  have d1: "q1 = q2 * 256 + r1" unfolding q2_def r1_def by simp
  have d2: "q2 = q3 * 256 + r2" unfolding q3_def r2_def by simp
  have "be_nat (be32 n) = ((q3 mod 256 * 256 + r2) * 256 + r1) * 256 + r0"
    unfolding be_nat_def be32_def r0_def r1_def r2_def e2 [symmetric] e3 [symmetric] q1_def
    by (simp add: unat_byte)
  also have "\<dots> = ((q3 * 256 + r2) * 256 + r1) * 256 + r0" unfolding m3 ..
  also have "\<dots> = n" using d0 d1 d2 by simp
  finally show ?thesis .
qed

lemma buildable_demo: "buildable demo_now ''SAMPLE001''"
  by (simp add: buildable_def valid_now_def demo_now_def)

lemma length_traces: "length (traces rnd) = 5"
  using synthesize_traces [of rnd] by (simp add: channels_def)

lemma count_all_items: "length (all_items now sb (traces rnd)) = 17"
  by (simp add: length_all_items length_traces)

lemma container_parts:
  assumes "24 * length items \<le> 1000"
  shows "take 24 (container items) = header_bytes (length items)"
    and "bytes_at (container items) 24 104 = replicate 104 0"
    and "bytes_at (container items) 128 (24 * length items) = concat (layout 1128 items)"
    and "drop 1128 (container items) = concat (map snd items)"
    and "length (container items) = 1128 + length (concat (map snd items))"
  using assms
  by (simp_all add: container_def bytes_at_def length_header_bytes length_concat_layout)

lemma zeros12: "replicate 12 (0::byte) = [0, 0, 0, 0, 0, 0, 0, 0, 0, 0, 0, 0]"
  by (simp add: numeral_eq_Suc)

lemma header_fields:
  "take 4 (header_bytes n) = map of_char ''ABIF''"
  "bytes_at (header_bytes n) 4 2 = be16 257"
  "bytes_at (header_bytes n) 6 2 = be16 128"
  "bytes_at (header_bytes n) 8 4 = be32 n"
  "bytes_at (header_bytes n) 12 12 = replicate 12 0"
  by (simp_all add: header_bytes_def pack_4s_def bytes_at_def be16_def be32_def zeros12)

lemma bytes_at_take: "a + b \<le> k \<Longrightarrow> bytes_at (take k xs) a b = bytes_at xs a b"
  by (simp add: bytes_at_def take_drop min_def)

lemma container_header:
  assumes "24 * length items \<le> 1000" "a + b \<le> 24"
  shows "bytes_at (container items) a b = bytes_at (header_bytes (length items)) a b"
  using bytes_at_take [OF assms(2), of "container items"] container_parts(1) [OF assms(1)]
  by simp

lemma container_magic:
  assumes "24 * length items \<le> 1000"
  shows "take 4 (container items) = map of_char ''ABIF''"
proof -
  have "take 4 (container items) = take 4 (take 24 (container items))" by simp
  also have "\<dots> = take 4 (header_bytes (length items))"
    unfolding container_parts(1) [OF assms] ..
  finally show ?thesis by (simp only: header_fields)
qed

lemma build_cases:
  assumes "buildable now sample_name"
  obtains w where
    "create_fsa_file self rnd now sample_name
       = Some (w, container (all_items now (map of_char sample_name) (traces rnd)))"
    "directory w = layout 1128 (all_items now (map of_char sample_name) (traces rnd))"
    "24 * length (all_items now (map of_char sample_name) (traces rnd)) \<le> 1000"
  using create_fsa_file_ok [OF assms, of self rnd] by (auto simp: count_all_items)

text \<open>
  Claim C9. On inputs that raise nothing, \<open>create_fsa_file\<close> returns a file whose first four
  bytes are the ASCII magic value \<open>ABIF\<close>, so the check that \<open>main\<close> makes after writing
  finds the file valid.
\<close>

theorem first_four_bytes_magic:
  assumes "buildable now sample_name"
  shows "\<exists>w file. create_fsa_file self rnd now sample_name = Some (w, file)
     \<and> take 4 file = map of_char ''ABIF'' \<and> valid_header file"
proof -
  from assms obtain w where
    c: "create_fsa_file self rnd now sample_name
       = Some (w, container (all_items now (map of_char sample_name) (traces rnd)))"
    and n: "24 * length (all_items now (map of_char sample_name) (traces rnd)) \<le> 1000"
    by (rule build_cases)
  show ?thesis using c container_magic [OF n] by (simp add: valid_header_def)
qed

theorem first_four_bytes_magic_witness:
  "\<exists>w file. create_fsa_file new_writer calm_draws demo_now ''SAMPLE001'' = Some (w, file)
     \<and> take 4 file = map of_char ''ABIF'' \<and> valid_header file"
  using first_four_bytes_magic [OF buildable_demo] .

lemma length_tag_name: "length (tag_name name) = 4"
  by (simp add: tag_name_def pack_4s_def ljust_def)

lemma entry_fields:
  "entry_name (mk_entry name ty es n ds off) = tag_name name"
  "ty < 4294967296 \<Longrightarrow> entry_type (mk_entry name ty es n ds off) = ty"
  "es < 4294967296 \<Longrightarrow> entry_esize (mk_entry name ty es n ds off) = es"
  "n < 4294967296 \<Longrightarrow> entry_num (mk_entry name ty es n ds off) = n"
  "ds < 4294967296 \<Longrightarrow> entry_size (mk_entry name ty es n ds off) = ds"
  "off < 4294967296 \<Longrightarrow> entry_offset (mk_entry name ty es n ds off) = off"
  by (simp_all add: entry_name_def entry_type_def entry_esize_def entry_num_def entry_size_def
      entry_offset_def mk_entry_def bytes_at_def length_tag_name length_be32 be_nat_be32)

lemma bytes_at_add: "bytes_at xs a (b + c) = bytes_at xs a b @ bytes_at xs (a + b) c"
  by (simp add: bytes_at_def take_add add.commute)

lemma built_eq:
  assumes "buildable now sample_name"
  shows "built self rnd now sample_name
     = Some (container (all_items now (map of_char sample_name) (traces rnd)))"
  using build_cases [OF assms, of self rnd] by (auto simp: built_def)

lemma header_of_build:
  assumes "a + b \<le> 24"
  shows "bytes_at (container (all_items now sb (traces rnd))) a b = bytes_at (header_bytes 17) a b"
  using container_header [of "all_items now sb (traces rnd)" a b] assms
  by (simp add: count_all_items)

lemma be_nat_4: "be_nat [a, b, c, d] = ((unat a * 256 + unat b) * 256 + unat c) * 256 + unat d"
  by (simp add: be_nat_def)

text \<open>
  Claim C1, as stated, fails: read as a 4-byte big-endian directory offset at byte 6
  followed by a 4-byte entry count at byte 10, the header of a build gives 8388608 and
  1114112, while the directory is at offset 128 and has 17 entries.
\<close>

theorem header_fields_not_as_specified:
  "map_option spec_header_dir_offset (built new_writer calm_draws demo_now ''SAMPLE001'')
     = Some 8388608
   \<and> map_option spec_header_entry_count (built new_writer calm_draws demo_now ''SAMPLE001'')
     = Some 1114112"
proof -
  have "bytes_at (header_bytes 17) 6 4 = [0, 128, 0, 0]"
    and "bytes_at (header_bytes 17) 10 4 = [0, 17, 0, 0]"
    by (simp_all add: header_bytes_def pack_4s_def bytes_at_def be16_def be32_def)
  then show ?thesis
    by (simp add: built_eq [OF buildable_demo] spec_header_dir_offset_def
        spec_header_entry_count_def header_of_build be_nat_4)
qed

lemma length_directory_build:
  "length (layout 1128 (all_items now sb (traces rnd))) = 17"
  by (simp add: length_layout count_all_items)

text \<open>
  Claim C1, amended. On inputs that raise nothing the file begins with a header of 128
  bytes: the 4-byte magic value \<open>ABIF\<close>, the 2-byte big-endian version \<open>0x0101\<close>, the
  2-byte big-endian offset of the directory (128), the 4-byte big-endian count of
  directory entries, and zero bytes from byte 12 up to byte 128, where the directory
  begins.
\<close>

theorem header_layout:
  assumes "buildable now sample_name"
  shows "\<exists>w file. create_fsa_file self rnd now sample_name = Some (w, file)
     \<and> take 4 file = map of_char ''ABIF''
     \<and> bytes_at file 4 2 = be16 0x0101
     \<and> bytes_at file 6 2 = be16 128 \<and> header_dir_offset file = 128
     \<and> bytes_at file 8 4 = be32 (length (directory w))
     \<and> header_entry_count file = length (directory w)
     \<and> bytes_at file 12 116 = replicate 116 0
     \<and> bytes_at file 128 (24 * length (directory w)) = concat (directory w)"
proof -
  let ?items = "all_items now (map of_char sample_name) (traces rnd)"
  let ?file = "container ?items"
  from assms obtain w where
    c: "create_fsa_file self rnd now sample_name = Some (w, ?file)"
    and d: "directory w = layout 1128 ?items"
    and n: "24 * length ?items \<le> 1000"
    by (rule build_cases)
  have l: "length (directory w) = 17" unfolding d by (rule length_directory_build)
  have m: "take 4 ?file = map of_char ''ABIF''" using n by (rule container_magic)
  have v: "bytes_at ?file 4 2 = be16 257" by (simp add: header_of_build header_fields)
  have o: "bytes_at ?file 6 2 = be16 128" by (simp add: header_of_build header_fields)
  have k: "bytes_at ?file 8 4 = be32 17" by (simp add: header_of_build header_fields)
  have "bytes_at ?file 12 (12 + 104) = bytes_at ?file 12 12 @ bytes_at ?file (12 + 12) 104"
    by (rule bytes_at_add)
  also have "bytes_at ?file 12 12 = replicate 12 0" by (simp add: header_of_build header_fields)
  also have "bytes_at ?file (12 + 12) 104 = replicate 104 0"
    using container_parts(2) [OF n] by simp
  finally have z: "bytes_at ?file 12 116 = replicate 116 0"
    by (simp add: replicate_add [symmetric])
  have dd: "bytes_at ?file 128 (24 * 17) = concat (layout 1128 ?items)"
    using container_parts(3) [OF n] by (simp add: count_all_items)
  have "header_dir_offset ?file = 128" "header_entry_count ?file = 17"
    by (simp_all add: header_dir_offset_def header_entry_count_def o k be_nat_be16 be_nat_be32)
  then show ?thesis using c m v o k z dd l d by simp
qed

theorem header_layout_witness:
  "\<exists>w file. create_fsa_file new_writer calm_draws demo_now ''SAMPLE001'' = Some (w, file)
     \<and> take 4 file = map of_char ''ABIF''
     \<and> bytes_at file 4 2 = be16 0x0101
     \<and> bytes_at file 6 2 = be16 128 \<and> header_dir_offset file = 128
     \<and> bytes_at file 8 4 = be32 (length (directory w))
     \<and> header_entry_count file = length (directory w)
     \<and> bytes_at file 12 116 = replicate 116 0
     \<and> bytes_at file 128 (24 * length (directory w)) = concat (directory w)"
  using header_layout [OF buildable_demo] .

lemma entry_names_layout:
  "map entry_name (layout off items) = map (\<lambda>it. tag_name (fst (fst it))) items"
  by (induction off items rule: layout.induct) (simp_all add: entry_fields)

lemma item_names:
  "map (\<lambda>it. fst (fst it)) (all_items now sb (traces rnd)) = tag_names"
proof -
  have "map (\<lambda>it. fst (fst it)) (map data_item (traces rnd))
      = replicate (length (traces rnd)) ''DATA''"
    by (simp add: data_item_def o_def map_replicate_const)
  then show ?thesis
    by (simp add: all_items_def meta_items_def dyes_def dye_item_def tag_names_def
        length_traces numeral_eq_Suc)
qed

lemma entry_names_build:
  "map entry_name (layout 1128 (all_items now sb (traces rnd))) = map tag_name tag_names"
proof -
  have "map (\<lambda>it. tag_name (fst (fst it))) (all_items now sb (traces rnd))
      = map tag_name (map (\<lambda>it. fst (fst it)) (all_items now sb (traces rnd)))"
    by (simp add: o_def)
  then show ?thesis unfolding entry_names_layout item_names .
qed

lemma buildable_sample001: "valid_now now \<Longrightarrow> buildable now ''SAMPLE001''"
  by (simp add: buildable_def)

lemma valid_demo_now: "valid_now demo_now"
  by (simp add: valid_now_def demo_now_def)

lemma header_count_build:
  "header_entry_count (container (all_items now sb (traces rnd))) = 17"
  by (simp add: header_entry_count_def header_of_build header_fields be_nat_be32)

text \<open>
  Claim C2, as stated, fails: the count in the header of the build for \<open>SAMPLE001\<close> is 17,
  not \<open>5 + 5 + 6 = 16\<close>.
\<close>

theorem sample001_count_not_16:
  "map_option header_entry_count (built new_writer calm_draws demo_now ''SAMPLE001'') = Some 17
   \<and> (17::nat) \<noteq> 5 + 5 + 6"
  by (simp add: built_eq [OF buildable_demo] header_count_build)

text \<open>
  Claim C2, amended. For the sample identifier \<open>SAMPLE001\<close>, 5 channels and 8000 samples
  a channel, the count of directory entries in the header is 17: the 7 metadata tags
  (sample name, machine, model, run date, run time, scan count, lane), then 5 dye-name tags,
  then 5 trace tags.
\<close>

theorem sample001_count:
  assumes "valid_now now"
  shows "\<exists>w file. create_fsa_file self rnd now ''SAMPLE001'' = Some (w, file)
     \<and> header_entry_count file = 17 \<and> length (directory w) = 7 + 5 + 5
     \<and> map entry_name (directory w) = map tag_name tag_names"
proof -
  let ?items = "all_items now (map of_char ''SAMPLE001'') (traces rnd)"
  from buildable_sample001 [OF assms] obtain w where
    c: "create_fsa_file self rnd now ''SAMPLE001'' = Some (w, container ?items)"
    and d: "directory w = layout 1128 ?items"
    by (rule build_cases)
  have "length (directory w) = 17" unfolding d by (rule length_directory_build)
  moreover have "map entry_name (directory w) = map tag_name tag_names"
    unfolding d by (rule entry_names_build)
  moreover have "header_entry_count (container ?items) = 17" by (rule header_count_build)
  ultimately show ?thesis using c by simp
qed

theorem sample001_count_witness:
  "\<exists>w file. create_fsa_file new_writer calm_draws demo_now ''SAMPLE001'' = Some (w, file)
     \<and> header_entry_count file = 17 \<and> length (directory w) = 7 + 5 + 5
     \<and> map entry_name (directory w) = map tag_name tag_names"
  using sample001_count [OF valid_demo_now] .

lemma meta_items_ok:
  "length sb < 4294967296 \<Longrightarrow> list_all item_ok (meta_items now sb)"
  by (simp add: meta_items_def item_ok_def length_be16 length_be32)

lemma dye_items_ok: "list_all item_ok (map dye_item dyes)"
  by (simp add: dyes_def dye_item_def item_ok_def)

lemma trace_length: "d \<in> set (traces rnd) \<Longrightarrow> length d = 8000"
proof -
  assume "d \<in> set (traces rnd)"
  then obtain k where "k < length (traces rnd)" "d = traces rnd ! k"
    by (auto simp: in_set_conv_nth)
  then show ?thesis
    using synthesize_traces [of rnd] by (simp add: trace_ok_def data_points_def)
qed

lemma data_items_ok: "list_all item_ok (map data_item (traces rnd))"
  by (simp add: list_all_iff data_item_def item_ok_def trace_length length_tobytes)

lemma all_items_ok:
  "length sb < 4294967296 \<Longrightarrow> list_all item_ok (all_items now sb (traces rnd))"
  by (simp add: all_items_def meta_items_ok dye_items_ok data_items_ok)

lemma type_width_layout:
  "list_all item_ok items \<Longrightarrow>
   map type_width (layout off items) = map (\<lambda>it. (fst (snd (fst it)), fst (snd (snd (fst it))))) items"
  by (induction off items rule: layout.induct)
     (simp_all add: item_ok_def type_width_def entry_fields)

lemma item_type_widths:
  "map (\<lambda>it. (fst (snd (fst it)), fst (snd (snd (fst it))))) (all_items now sb (traces rnd))
     = [(19, 1), (19, 1), (19, 1), (2, 4), (3, 4), (4, 4), (5, 2)]
         @ replicate 5 (19, 1) @ replicate 5 (4, 2)"
proof -
  have "map (\<lambda>it. (fst (snd (fst it)), fst (snd (snd (fst it))))) (map data_item (traces rnd))
      = replicate (length (traces rnd)) (4, 2)"
    by (simp add: data_item_def o_def map_replicate_const)
  then show ?thesis
    by (simp add: all_items_def meta_items_def dyes_def dye_item_def length_traces numeral_eq_Suc)
qed

lemma buildable_name_length: "buildable now sample_name \<Longrightarrow> length sample_name < 4294967296"
  by (simp add: buildable_def)

lemma build_items_ok:
  "buildable now sample_name \<Longrightarrow>
   list_all item_ok (all_items now (map of_char sample_name) (traces rnd))"
  using buildable_name_length [of now sample_name] by (intro all_items_ok) simp

lemma consistent_layout:
  "list_all item_ok items \<Longrightarrow> list_all item_consistent items \<Longrightarrow>
   list_all entry_consistent (layout off items)"
  by (induction off items rule: layout.induct)
     (simp_all add: item_ok_def item_consistent_def entry_consistent_def entry_fields)

lemma all_items_consistent: "list_all item_consistent (all_items now sb cd)"
  by (simp add: all_items_def meta_items_def dyes_def dye_item_def data_item_def list_all_iff
      item_consistent_def)

text \<open>
  Claim C3 fails on the code. The directory of every build declares the type codes and
  element sizes below: the \<open>SCAN\<close> entry (index 5) has type code 4 with element size 4, and
  each \<open>DATA\<close> entry (indices 12 to 16) has type code 4 with element size 2.
\<close>

theorem type_code_4_has_two_widths:
  assumes "buildable now sample_name"
  shows "\<exists>w file. create_fsa_file self rnd now sample_name = Some (w, file)
     \<and> map type_width (directory w)
         = [(19, 1), (19, 1), (19, 1), (2, 4), (3, 4), (4, 4), (5, 2)]
             @ replicate 5 (19, 1) @ replicate 5 (4, 2)
     \<and> type_width (directory w ! 5) = (4, 4) \<and> type_width (directory w ! 12) = (4, 2)"
proof -
  let ?items = "all_items now (map of_char sample_name) (traces rnd)"
  let ?tw = "[(19, 1), (19, 1), (19, 1), (2, 4), (3, 4), (4, 4), (5, 2)]
             @ replicate 5 (19, 1) @ replicate 5 (4, 2::nat) :: (nat \<times> nat) list"
  from assms obtain w where
    c: "create_fsa_file self rnd now sample_name = Some (w, container ?items)"
    and d: "directory w = layout 1128 ?items"
    by (rule build_cases)
  have m: "map type_width (directory w) = ?tw"
    unfolding d type_width_layout [OF build_items_ok [OF assms]] by (rule item_type_widths)
  have l: "length (directory w) = 17" unfolding d by (rule length_directory_build)
  have "type_width (directory w ! 5) = map type_width (directory w) ! 5"
    "type_width (directory w ! 12) = map type_width (directory w) ! 12"
    using l by simp_all
  moreover have "?tw ! 5 = (4, 4)" "?tw ! 12 = (4, 2)"
    by (simp_all add: numeral_eq_Suc)
  ultimately have "type_width (directory w ! 5) = (4, 4)" "type_width (directory w ! 12) = (4, 2)"
    unfolding m by simp_all
  then show ?thesis using c m by simp
qed

theorem type_code_4_has_two_widths_witness:
  "\<exists>w file. create_fsa_file new_writer calm_draws demo_now ''SAMPLE001'' = Some (w, file)
     \<and> map type_width (directory w)
         = [(19, 1), (19, 1), (19, 1), (2, 4), (3, 4), (4, 4), (5, 2)]
             @ replicate 5 (19, 1) @ replicate 5 (4, 2)
     \<and> type_width (directory w ! 5) = (4, 4) \<and> type_width (directory w ! 12) = (4, 2)"
  using type_code_4_has_two_widths [OF buildable_demo] .

lemma ranges_within:
  "list_all (range_within off (off + length (concat (map snd items)))) (ranges off items)"
proof (induction off items rule: ranges.induct)
  case (1 off)
  then show ?case by simp
next
  case (2 off t bs rest)
  have "\<forall>r\<in>set (ranges (off + length bs) rest).
      off + length bs \<le> fst r \<and> fst r \<le> snd r
      \<and> snd r \<le> off + length bs + length (concat (map snd rest))"
    using 2 by (simp add: list_all_iff range_within_def)
  then show ?case by (auto simp: list_all_iff range_within_def)
qed

lemma ranges_no_overlap: "no_overlap (ranges off items)"
proof (induction off items rule: ranges.induct)
  case (1 off)
  then show ?case by simp
next
  case (2 off t bs rest)
  have "list_all (range_within (off + length bs)
      (off + length bs + length (concat (map snd rest)))) (ranges (off + length bs) rest)"
    by (rule ranges_within)
  then have "list_all (\<lambda>q. off + length bs \<le> fst q) (ranges (off + length bs) rest)"
    by (auto simp: list_all_iff range_within_def)
  then show ?case using 2 by (simp add: list_all_iff)
qed

lemma ranges_payloads:
  "length pre = off \<Longrightarrow>
   map (\<lambda>r. bytes_at (pre @ concat (map snd items)) (fst r) (snd r - fst r)) (ranges off items)
     = map snd items"
proof (induction off items arbitrary: pre rule: ranges.induct)
  case (1 off)
  then show ?case by simp
next
  case (2 off t bs rest)
  have "map (\<lambda>r. bytes_at ((pre @ bs) @ concat (map snd rest)) (fst r) (snd r - fst r))
      (ranges (off + length bs) rest) = map snd rest"
    using "2.IH" [of "pre @ bs"] "2.prems" by simp
  moreover have "bytes_at (pre @ bs @ concat (map snd rest)) off (length bs) = bs"
    using "2.prems" by (simp add: bytes_at_def)
  ultimately show ?case by simp
qed

lemma entry_ranges_layout:
  "list_all item_ok items \<Longrightarrow> off + length (concat (map snd items)) < 4294967296 \<Longrightarrow>
   map entry_range (layout off items) = ranges off items"
proof (induction off items rule: layout.induct)
  case (1 off)
  then show ?case by simp
next
  case (2 off name ty es n ds bs rest)
  then have "map entry_range (layout (off + length bs) rest) = ranges (off + length bs) rest"
    by (simp add: add.assoc)
  moreover have "entry_range (mk_entry name ty es n ds off) = (off, off + length bs)"
    using "2.prems" by (simp add: entry_range_def entry_fields item_ok_def)
  ultimately show ?case by simp
qed

lemma drop_concat_same:
  "(\<And>e. e \<in> set es \<Longrightarrow> length e = k) \<Longrightarrow> drop (k * i) (concat es) = concat (drop i es)"
proof (induction es arbitrary: i)
  case Nil
  then show ?case by simp
next
  case (Cons e es)
  show ?case
  proof (cases i)
    case 0
    then show ?thesis by simp
  next
    case (Suc j)
    have "drop (k * j) (concat es) = concat (drop j es)"
      using Cons.prems by (intro Cons.IH) simp
    moreover have "length e = k" using Cons.prems by simp
    ultimately show ?thesis using Suc by simp
  qed
qed

lemma read_entries:
  assumes "\<And>e. e \<in> set es \<Longrightarrow> length e = 24" "length pre = p"
  shows "map (\<lambda>i. bytes_at (pre @ concat es @ rest) (p + 24 * i) 24) [0..<length es] = es"
proof (rule nth_equalityI)
  show "length (map (\<lambda>i. bytes_at (pre @ concat es @ rest) (p + 24 * i) 24) [0..<length es])
      = length es" by simp
next
  fix i assume "i < length (map (\<lambda>i. bytes_at (pre @ concat es @ rest) (p + 24 * i) 24)
      [0..<length es])"
  then have i: "i < length es" by simp
  have le: "length (es ! i) = 24" using assms(1) i by simp
  have "24 * i \<le> length (concat es)"
    using length_concat_same [of es 24] assms(1) i by simp
  then have "drop (p + 24 * i) (pre @ concat es @ rest) = drop (24 * i) (concat es) @ rest"
    using assms(2) by simp
  also have "drop (24 * i) (concat es) = concat (drop i es)"
    using assms(1) by (rule drop_concat_same)
  also have "drop i es = es ! i # drop (Suc i) es"
    using i by (simp add: Cons_nth_drop_Suc)
  finally have "bytes_at (pre @ concat es @ rest) (p + 24 * i) 24 = es ! i"
    using le by (simp add: bytes_at_def)
  then show "map (\<lambda>i. bytes_at (pre @ concat es @ rest) (p + 24 * i) 24) [0..<length es] ! i
      = es ! i" using i by simp
qed

lemma entry_length_layout: "e \<in> set (layout off items) \<Longrightarrow> length e = 24"
  by (induction off items rule: layout.induct) (auto simp: length_mk_entry)

lemma read_directory_container:
  assumes "24 * length items \<le> 1000"
  shows "read_directory (container items) = layout 1128 items"
proof -
  have o: "header_dir_offset (container items) = 128"
    using container_header [OF assms, of 6 2]
    by (simp add: header_dir_offset_def header_fields be_nat_be16)
  have n: "header_entry_count (container items) = length items"
    using container_header [OF assms, of 8 4] assms
    by (simp add: header_entry_count_def header_fields be_nat_be32)
  have c: "container items = (header_bytes (length items) @ replicate 104 0)
      @ concat (layout 1128 items)
      @ (replicate (1000 - 24 * length items) 0 @ concat (map snd items))"
    by (simp add: container_def)
  have "map (\<lambda>i. bytes_at (container items) (128 + 24 * i) 24) [0..<length (layout 1128 items)]
      = layout 1128 items"
    unfolding c by (rule read_entries) (simp_all add: entry_length_layout length_header_bytes)
  then show ?thesis by (simp add: read_directory_def o n length_layout)
qed

lemma total_payload:
  "length (concat (map snd (all_items now sb (traces rnd)))) = length sb + 80041"
  by (simp add: all_items_def payload_meta payload_dyes payload_data length_concat_traces)

lemma parse_payloads_container:
  assumes n: "24 * length items \<le> 1000" and ok: "list_all item_ok items"
    and len: "1128 + length (concat (map snd items)) < 4294967296"
  shows "parse_payloads (container items) = map snd items"
proof -
  define pre where "pre = header_bytes (length items) @ replicate 104 0
      @ concat (layout 1128 items) @ replicate (1000 - 24 * length items) 0"
  have c: "container items = pre @ concat (map snd items)"
    by (simp add: container_def pre_def)
  have lp: "length pre = 1128"
    using n by (simp add: pre_def length_header_bytes length_concat_layout)
  have r: "map entry_range (layout 1128 items) = ranges 1128 items"
    using ok len by (rule entry_ranges_layout)
  have "parse_payloads (container items)
      = map (\<lambda>e. bytes_at (container items) (entry_offset e) (entry_size e))
          (layout 1128 items)"
    by (simp add: parse_payloads_def read_directory_container [OF n])
  also have "\<dots> = map (\<lambda>r. bytes_at (container items) (fst r) (snd r - fst r))
      (map entry_range (layout 1128 items))"
    by (simp add: entry_range_def o_def)
  also have "\<dots> = map snd items"
    unfolding r c using lp by (rule ranges_payloads)
  finally show ?thesis .
qed

text \<open>
  Claim C6. On inputs that raise nothing, the directory read back from the file (through
  the offset and the count in its header) is the directory that was written; every entry
  declares a byte range that lies in the payload heap of the file; no two of these
  ranges overlap; and the bytes at each range are the payload that was written for the
  tag, so parsing the file recovers every payload.
\<close>

theorem directory_round_trip:
  assumes "buildable now sample_name"
  shows "\<exists>w file. create_fsa_file self rnd now sample_name = Some (w, file)
     \<and> read_directory file = directory w
     \<and> list_all (range_within 1128 (length file)) (map entry_range (directory w))
     \<and> no_overlap (map entry_range (directory w))
     \<and> parse_payloads file = payloads now sample_name (traces rnd)"
proof -
  let ?items = "all_items now (map of_char sample_name) (traces rnd)"
  from assms obtain w where
    c: "create_fsa_file self rnd now sample_name = Some (w, container ?items)"
    and d: "directory w = layout 1128 ?items"
    and n: "24 * length ?items \<le> 1000"
    by (rule build_cases)
  have ok: "list_all item_ok ?items" using assms by (rule build_items_ok)
  have tot: "length (concat (map snd ?items)) = length sample_name + 80041"
    using total_payload [of now "map of_char sample_name" rnd] by simp
  have len: "1128 + length (concat (map snd ?items)) < 4294967296"
    using assms unfolding tot by (simp add: buildable_def)
  have r: "map entry_range (layout 1128 ?items) = ranges 1128 ?items"
    using ok len by (rule entry_ranges_layout)
  have 1: "read_directory (container ?items) = layout 1128 ?items"
    using n by (rule read_directory_container)
  have 2: "list_all (range_within 1128 (length (container ?items)))
      (map entry_range (layout 1128 ?items))"
    unfolding r container_parts(5) [OF n] by (rule ranges_within)
  have 3: "no_overlap (map entry_range (layout 1128 ?items))"
    unfolding r by (rule ranges_no_overlap)
  have 4: "parse_payloads (container ?items) = payloads now sample_name (traces rnd)"
    unfolding payloads_def using n ok len by (rule parse_payloads_container)
  show ?thesis using c d 1 2 3 4 by simp
qed

theorem directory_round_trip_witness:
  "\<exists>w file. create_fsa_file new_writer calm_draws demo_now ''SAMPLE001'' = Some (w, file)
     \<and> read_directory file = directory w
     \<and> list_all (range_within 1128 (length file)) (map entry_range (directory w))
     \<and> no_overlap (map entry_range (directory w))
     \<and> parse_payloads file = payloads demo_now ''SAMPLE001'' (traces calm_draws)"
  using directory_round_trip [OF buildable_demo] .

lemma layout_shape:
  "map item_shape xs = map item_shape ys \<Longrightarrow> layout off xs = layout off ys"
proof (induction off xs arbitrary: ys rule: layout.induct)
  case (1 off)
  then show ?case by simp
next
  case (2 off name ty es n ds bs rest)
  then obtain y ys' where ys: "ys = y # ys'" by (cases ys) auto
  obtain t bs' where y: "y = (t, bs')" by (cases y)
  have s: "t = (name, ty, es, n, ds)" "length bs' = length bs"
    using "2.prems" by (simp_all add: ys y item_shape_def)
  have s3: "map item_shape rest = map item_shape ys'"
    using "2.prems" by (simp add: ys)
  have "layout (off + length bs) rest = layout (off + length bs) ys'"
    using s3 by (rule "2.IH")
  then show ?case by (simp add: ys y s)
qed

lemma data_shapes:
  "map item_shape (map data_item (traces rnd))
     = replicate 5 ((''DATA'', 4, 2, 8000, 16000), 16000)"
proof -
  have "map item_shape (map data_item (traces rnd))
      = map (\<lambda>d. ((''DATA'', 4, 2, 8000, 16000), 16000)) (traces rnd)"
    by (simp add: item_shape_def data_item_def length_tobytes trace_length)
  then show ?thesis by (simp add: map_replicate_const length_traces)
qed

lemma meta_shapes:
  "length sb1 = length sb2 \<Longrightarrow>
   map item_shape (meta_items now1 sb1) = map item_shape (meta_items now2 sb2)"
  by (simp add: meta_items_def item_shape_def length_be16 length_be32)

lemma all_shapes:
  "length sb1 = length sb2 \<Longrightarrow>
   map item_shape (all_items now1 sb1 (traces rnd1))
     = map item_shape (all_items now2 sb2 (traces rnd2))"
  using data_shapes [of rnd1] data_shapes [of rnd2] meta_shapes [of sb1 sb2 now1 now2]
  by (simp add: all_items_def)

lemma same_directory:
  "length sb1 = length sb2 \<Longrightarrow>
   layout 1128 (all_items now1 sb1 (traces rnd1)) = layout 1128 (all_items now2 sb2 (traces rnd2))"
  by (intro layout_shape all_shapes)

lemma length_fixed: "length fixed_names = 12" "length fixed_tail = 21"
  by (simp_all add: fixed_names_def fixed_tail_def length_be16 length_be32 dyes_def)

lemma heap_parts:
  "concat (map snd (all_items now sb cd))
     = sb @ fixed_names
        @ (be16 (year now) @ [word_of_nat (month now), word_of_nat (day now)])
        @ [word_of_nat (hour now), word_of_nat (minute now), word_of_nat (second now), 0]
        @ fixed_tail @ concat (map tobytes cd)"
  by (simp add: all_items_def meta_items_def fixed_names_def fixed_tail_def dye_item_def
      data_item_def o_def)

lemma heap_fixed:
  assumes "24 * length (all_items now sb cd) \<le> 1000"
  shows "bytes_at (container (all_items now sb cd)) (1128 + length sb) 12 = fixed_names"
    and "bytes_at (container (all_items now sb cd)) (1148 + length sb) 21 = fixed_tail"
proof -
  let ?c = "container (all_items now sb cd)"
  have d: "drop 1128 ?c = concat (map snd (all_items now sb cd))"
    using assms by (rule container_parts(4))
  have "bytes_at ?c (1128 + length sb) 12 = take 12 (drop (length sb) (drop 1128 ?c))"
    by (simp add: bytes_at_def add.commute)
  then show "bytes_at ?c (1128 + length sb) 12 = fixed_names"
    unfolding d heap_parts by (simp add: length_fixed)
  have "bytes_at ?c (1148 + length sb) 21 = take 21 (drop (length sb + 20) (drop 1128 ?c))"
    by (simp add: bytes_at_def add.commute)
  then show "bytes_at ?c (1148 + length sb) 21 = fixed_tail"
    unfolding d heap_parts by (simp add: length_fixed length_be16)
qed

lemma length_build:
  "length (container (all_items now sb (traces rnd))) = length sb + 81169"
  using container_parts(5) [of "all_items now sb (traces rnd)"]
  by (simp add: count_all_items total_payload)

lemma take_header_region:
  assumes "24 * length items \<le> 1000"
  shows "take 1128 (container items)
     = header_bytes (length items) @ replicate 104 0 @ concat (layout 1128 items)
         @ replicate (1000 - 24 * length items) 0"
  using assms by (simp add: container_def length_header_bytes length_concat_layout)

lemma built_length:
  "buildable now sample_name \<Longrightarrow>
   map_option length (built self rnd now sample_name) = Some (length sample_name + 81169)"
  by (simp add: built_eq length_build)

text \<open>
  Claim C5, as stated, fails: two of the sample identifiers that \<open>main\<close> uses have different
  lengths, and so have the two files.
\<close>

theorem different_names_different_lengths:
  "map_option length (built new_writer calm_draws demo_now ''IDENTIFILER_CHILD_001'')
     = Some 81190
   \<and> map_option length (built new_writer calm_draws demo_now ''IDENTIFILER_FATHER_001'')
     = Some 81191"
proof -
  have "buildable demo_now ''IDENTIFILER_CHILD_001''"
    "buildable demo_now ''IDENTIFILER_FATHER_001''"
    by (simp_all add: buildable_def valid_demo_now)
  then show ?thesis by (simp add: built_length)
qed

text \<open>
  Claim C5, amended. Two builds with ASCII sample identifiers (and the fixed 5 channels of
  8000 samples) have directories with the same number of entries and the same order of
  tag names, type codes and element sizes, and the lengths of the two files differ by the
  difference of the lengths of the identifiers. When the identifiers have the same
  length, the files have the same length, the same directory and the same first 1128
  bytes (header and directory region), and the same machine, model, scan-count, lane and
  dye-name payloads: they differ at most in the sample-identifier payload, the run date
  and time payloads, and the trace payloads.
\<close>

theorem structure_of_two_builds:
  assumes "buildable now1 name1" "buildable now2 name2"
  shows "\<exists>w1 file1 w2 file2.
     create_fsa_file self1 rnd1 now1 name1 = Some (w1, file1)
     \<and> create_fsa_file self2 rnd2 now2 name2 = Some (w2, file2)
     \<and> length (directory w1) = length (directory w2)
     \<and> map entry_name (directory w1) = map entry_name (directory w2)
     \<and> map type_width (directory w1) = map type_width (directory w2)
     \<and> length file1 + length name2 = length file2 + length name1
     \<and> (length name1 = length name2 \<longrightarrow>
          length file1 = length file2 \<and> directory w1 = directory w2
          \<and> take 1128 file1 = take 1128 file2
          \<and> bytes_at file1 (1128 + length name1) 12 = bytes_at file2 (1128 + length name1) 12
          \<and> bytes_at file1 (1148 + length name1) 21 = bytes_at file2 (1148 + length name1) 21)"
proof -
  let ?i1 = "all_items now1 (map of_char name1) (traces rnd1)"
  let ?i2 = "all_items now2 (map of_char name2) (traces rnd2)"
  from assms(1) obtain w1 where
    c1: "create_fsa_file self1 rnd1 now1 name1 = Some (w1, container ?i1)"
    and d1: "directory w1 = layout 1128 ?i1" and n1: "24 * length ?i1 \<le> 1000"
    by (rule build_cases)
  from assms(2) obtain w2 where
    c2: "create_fsa_file self2 rnd2 now2 name2 = Some (w2, container ?i2)"
    and d2: "directory w2 = layout 1128 ?i2" and n2: "24 * length ?i2 \<le> 1000"
    by (rule build_cases)
  have l: "length (directory w1) = length (directory w2)"
    unfolding d1 d2 by (simp add: length_directory_build)
  have nm: "map entry_name (directory w1) = map entry_name (directory w2)"
    unfolding d1 d2 by (simp add: entry_names_build)
  have tw: "map type_width (directory w1) = map type_width (directory w2)"
    unfolding d1 d2
    by (simp add: type_width_layout [OF build_items_ok [OF assms(1)]]
        type_width_layout [OF build_items_ok [OF assms(2)]] item_type_widths)
  have len1: "length (container ?i1) = length name1 + 81169"
    and len2: "length (container ?i2) = length name2 + 81169"
    using length_build [of now1 "map of_char name1" rnd1]
      length_build [of now2 "map of_char name2" rnd2] by simp_all
  have same: "length (container ?i1) = length (container ?i2) \<and> directory w1 = directory w2
      \<and> take 1128 (container ?i1) = take 1128 (container ?i2)
      \<and> bytes_at (container ?i1) (1128 + length name1) 12
          = bytes_at (container ?i2) (1128 + length name1) 12
      \<and> bytes_at (container ?i1) (1148 + length name1) 21
          = bytes_at (container ?i2) (1148 + length name1) 21"
    if eq: "length name1 = length name2"
  proof -
    have lay: "layout 1128 ?i1 = layout 1128 ?i2"
      using eq by (intro same_directory) simp
    have cnt: "length ?i1 = length ?i2" by (simp add: count_all_items)
    have t: "take 1128 (container ?i1) = take 1128 (container ?i2)"
      unfolding take_header_region [OF n1] take_header_region [OF n2] lay cnt ..
    have f1: "bytes_at (container ?i1) (1128 + length name1) 12 = fixed_names"
      "bytes_at (container ?i1) (1148 + length name1) 21 = fixed_tail"
      using heap_fixed [OF n1] by simp_all
    have f2: "bytes_at (container ?i2) (1128 + length name1) 12 = fixed_names"
      "bytes_at (container ?i2) (1148 + length name1) 21 = fixed_tail"
      using heap_fixed [OF n2] eq by simp_all
    show ?thesis using eq len1 len2 lay d1 d2 t f1 f2 by simp
  qed
  show ?thesis using c1 c2 l nm tw len1 len2 same by simp
qed

theorem structure_of_two_builds_witness:
  "\<exists>w1 file1 w2 file2.
     create_fsa_file new_writer calm_draws demo_now ''SAMPLE001'' = Some (w1, file1)
     \<and> create_fsa_file new_writer calm_draws demo_now ''SAMPLE002'' = Some (w2, file2)
     \<and> map entry_name (directory w1) = map entry_name (directory w2)
     \<and> length file1 = length file2 \<and> directory w1 = directory w2
     \<and> take 1128 file1 = take 1128 file2"
proof -
  have b: "buildable demo_now ''SAMPLE001''" "buildable demo_now ''SAMPLE002''"
    by (simp_all add: buildable_def valid_demo_now)
  show ?thesis
    using structure_of_two_builds [OF b, of new_writer calm_draws new_writer calm_draws]
    by auto
qed

lemma entry_sizes_layout:
  "list_all item_ok items \<Longrightarrow>
   map entry_sizes (layout off items)
     = map (\<lambda>it. (fst (snd (snd (fst it))), fst (snd (snd (snd (fst it)))),
                  snd (snd (snd (snd (fst it)))))) items"
  by (induction off items rule: layout.induct)
     (simp_all add: item_ok_def entry_sizes_def entry_fields)

lemma item_sizes:
  "map (\<lambda>it. (fst (snd (snd (fst it))), fst (snd (snd (snd (fst it)))),
              snd (snd (snd (snd (fst it)))))) (all_items now sb (traces rnd))
     = [(1, length sb, length sb), (1, 8, 8), (1, 4, 4), (4, 1, 4), (4, 1, 4), (4, 1, 4),
        (2, 1, 2)] @ replicate 5 (1, 3, 3) @ replicate 5 (2, 8000, 16000)"
proof -
  have "map (\<lambda>it. (fst (snd (snd (fst it))), fst (snd (snd (snd (fst it)))),
              snd (snd (snd (snd (fst it)))))) (map data_item (traces rnd))
      = map (\<lambda>d. (2, 8000, 16000)) (traces rnd)"
    by (simp add: data_item_def trace_length)
  then have "map (\<lambda>it. (fst (snd (snd (fst it))), fst (snd (snd (snd (fst it)))),
              snd (snd (snd (snd (fst it)))))) (map data_item (traces rnd))
      = replicate 5 (2, 8000, 16000)"
    by (simp add: map_replicate_const length_traces)
  then show ?thesis
    by (simp add: all_items_def meta_items_def dyes_def dye_item_def numeral_eq_Suc)
qed

text \<open>
  Claim C10. On inputs that raise nothing, the file has a directory of 17 entries, which a
  reader finds through the header: the string tags \<open>SMPL\<close>, \<open>MCHN\<close> and \<open>MODL\<close>, the date
  tag \<open>RUND\<close>, the time tag \<open>RUNT\<close>, the long tag \<open>SCAN\<close>, the short tag \<open>LANE\<close>, five
  string tags \<open>DyeN\<close> and five short-array tags \<open>DATA\<close>. The element size, element count
  and data size that each entry declares are the ones given to \<open>add_tag\<close>, and in every
  entry the data size is the element size times the element count.
\<close>

theorem entries_size_is_width_times_count:
  assumes "buildable now sample_name"
  shows "\<exists>w file. create_fsa_file self rnd now sample_name = Some (w, file)
     \<and> length (directory w) = 17
     \<and> read_directory file = directory w
     \<and> map entry_name (directory w) = map tag_name tag_names
     \<and> map entry_sizes (directory w)
         = [(1, length sample_name, length sample_name), (1, 8, 8), (1, 4, 4), (4, 1, 4),
            (4, 1, 4), (4, 1, 4), (2, 1, 2)]
             @ replicate 5 (1, 3, 3) @ replicate 5 (2, 8000, 16000)
     \<and> list_all entry_consistent (directory w)"
proof -
  let ?items = "all_items now (map of_char sample_name) (traces rnd)"
  from assms obtain w where
    c: "create_fsa_file self rnd now sample_name = Some (w, container ?items)"
    and d: "directory w = layout 1128 ?items"
    and n: "24 * length ?items \<le> 1000"
    by (rule build_cases)
  have ok: "list_all item_ok ?items" using assms by (rule build_items_ok)
  have 1: "length (layout 1128 ?items) = 17" by (rule length_directory_build)
  have 2: "read_directory (container ?items) = layout 1128 ?items"
    using n by (rule read_directory_container)
  have 3: "map entry_name (layout 1128 ?items) = map tag_name tag_names"
    by (rule entry_names_build)
  have 4: "map entry_sizes (layout 1128 ?items)
      = [(1, length sample_name, length sample_name), (1, 8, 8), (1, 4, 4), (4, 1, 4),
         (4, 1, 4), (4, 1, 4), (2, 1, 2)]
          @ replicate 5 (1, 3, 3) @ replicate 5 (2, 8000, 16000)"
    unfolding entry_sizes_layout [OF ok]
    using item_sizes [of now "map of_char sample_name" rnd] by simp
  have 5: "list_all entry_consistent (layout 1128 ?items)"
    using ok all_items_consistent by (rule consistent_layout)
  show ?thesis using c d 1 2 3 4 5 by simp
qed

theorem entries_size_is_width_times_count_witness:
  "\<exists>w file. create_fsa_file new_writer calm_draws demo_now ''SAMPLE001'' = Some (w, file)
     \<and> length (directory w) = 17
     \<and> read_directory file = directory w
     \<and> map entry_name (directory w) = map tag_name tag_names
     \<and> map entry_sizes (directory w)
         = [(1, length ''SAMPLE001'', length ''SAMPLE001''), (1, 8, 8), (1, 4, 4), (4, 1, 4),
            (4, 1, 4), (4, 1, 4), (2, 1, 2)]
             @ replicate 5 (1, 3, 3) @ replicate 5 (2, 8000, 16000)
     \<and> list_all entry_consistent (directory w)"
  using entries_size_is_width_times_count [OF buildable_demo, of new_writer calm_draws] .

end
